theory Spec2Isabelle
  imports
    Main
    "HOL-Library.Char_ord"
    "HOL-Library.List_Lexorder"
    "HOL-Library.Sublist"
    "HOL-Library.Multiset"
begin

section \<open>RepoSensei: the repository relevance-ranking engine\<close>

text \<open>
  A shallow embedding of \<^verbatim>\<open>src/reposensei/utils.py\<close> and
  \<^verbatim>\<open>src/reposensei/signals.py\<close>. The functions read a directory tree and nothing
  else, so the tree is an explicit value (a \<open>snapshot\<close>) and every function of the source
  becomes a function of that value.

  Conventions of the model.
  \<^item> A Python \<open>str\<close> is a \<open>string\<close>; a character stands for a code point below 256.
  \<^item> A \<open>Path\<close> below the root is the list of its parts relative to the root; the parts
    of the \<open>Path\<close> object itself (\<open>p.parts\<close>) are the root's parts followed by these.
  \<^item> Paths are POSIX paths: \<open>str(p)\<close> and \<open>p.as_posix()\<close> coincide.
  \<^item> The file system is case sensitive: a path exists iff the snapshot lists it.
\<close>

subsection \<open>Python strings\<close>

definition nl :: char where
  "nl = CHR 0x0A"

text \<open>\<open>sep.join(xs)\<close>\<close>

fun join :: "string \<Rightarrow> string list \<Rightarrow> string" where
  "join sep [] = []"
| "join sep [x] = x"
| "join sep (x # y # ys) = x @ sep @ join sep (y # ys)"

text \<open>\<open>s.split(c)\<close> for a separator of one character: never the empty list.\<close>

fun split_on :: "char \<Rightarrow> string \<Rightarrow> string list" where
  "split_on c [] = [[]]"
| "split_on c (x # xs) =
     (if x = c then [] # split_on c xs
      else (case split_on c xs of
              [] \<Rightarrow> [[x]]
            | w # ws \<Rightarrow> (x # w) # ws))"

text \<open>\<open>str.isspace\<close> of one character, which is also the class \<open>\s\<close> of \<open>re\<close>.\<close>

definition is_space :: "char \<Rightarrow> bool" where
  "is_space c =
     (let n = (of_char c :: nat)
      in (9 \<le> n \<and> n \<le> 13) \<or> (28 \<le> n \<and> n \<le> 32) \<or> n = 133 \<or> n = 160)"

text \<open>\<open>s.strip()\<close>\<close>

definition strip :: "string \<Rightarrow> string" where
  "strip s = rev (dropWhile is_space (rev (dropWhile is_space s)))"

text \<open>\<open>s.lower()\<close>: the letters A-Z and the capital letters of Latin-1.\<close>

definition lower_char :: "char \<Rightarrow> char" where
  "lower_char c =
     (let n = (of_char c :: nat)
      in if (65 \<le> n \<and> n \<le> 90) \<or> (192 \<le> n \<and> n \<le> 222 \<and> n \<noteq> 215)
         then char_of (n + 32) else c)"

definition lower :: "string \<Rightarrow> string" where
  "lower s = map lower_char s"

text \<open>\<open>s.startswith(t)\<close>, \<open>s.endswith(t)\<close> and \<open>t in s\<close>\<close>

definition startswith :: "string \<Rightarrow> string \<Rightarrow> bool" where
  "startswith s t = prefix t s"

definition endswith :: "string \<Rightarrow> string \<Rightarrow> bool" where
  "endswith s t = prefix (rev t) (rev s)"

fun contains :: "string \<Rightarrow> string \<Rightarrow> bool" where
  "contains [] t = (t = [])"
| "contains (c # s) t = (prefix t (c # s) \<or> contains s t)"

text \<open>\<open>s.count(c)\<close> for one character.\<close>

definition count_char :: "string \<Rightarrow> char \<Rightarrow> nat" where
  "count_char s c = length (filter (\<lambda>x. x = c) s)"

subsection \<open>Paths\<close>

type_synonym path = "string list"

text \<open>\<open>p.as_posix()\<close> and \<open>str(p)\<close> of a relative path; the empty path is \<open>.\<close>\<close>

definition as_posix :: "path \<Rightarrow> string" where
  "as_posix p = (if p = [] then ''.'' else join ''/'' p)"

text \<open>\<open>str(p)\<close> of any path: an anchor \<open>/\<close> is a part of its own and is not followed
  by a separator.\<close>

definition path_str :: "path \<Rightarrow> string" where
  "path_str p =
     (case p of
        [] \<Rightarrow> ''.''
      | a # rest \<Rightarrow> if a = ''/'' then ''/'' @ join ''/'' rest else join ''/'' p)"

text \<open>\<open>Path(s)\<close> for a relative string: empty components and \<open>.\<close> are dropped.\<close>

definition parse_posix :: "string \<Rightarrow> path" where
  "parse_posix s = filter (\<lambda>w. w \<noteq> [] \<and> w \<noteq> ''.'') (split_on CHR ''/'' s)"

text \<open>\<open>p.name\<close>\<close>

definition name_of :: "path \<Rightarrow> string" where
  "name_of p = (if p = [] then [] else last p)"

text \<open>\<open>name.rfind('.')\<close>, \<open>None\<close> for \<open>-1\<close>\<close>

fun rfind_dot :: "string \<Rightarrow> nat option" where
  "rfind_dot [] = None"
| "rfind_dot (c # cs) =
     (case rfind_dot cs of
        Some i \<Rightarrow> Some (Suc i)
      | None \<Rightarrow> if c = CHR ''.'' then Some 0 else None)"

text \<open>\<open>p.suffix\<close> and \<open>p.stem\<close>: the name is cut at its last dot when that dot is
  neither the first nor the last character.\<close>

definition suffix_of :: "path \<Rightarrow> string" where
  "suffix_of p =
     (let name = name_of p
      in case rfind_dot name of
           None \<Rightarrow> []
         | Some i \<Rightarrow> if 0 < i \<and> i < length name - 1 then drop i name else [])"

definition stem_of :: "path \<Rightarrow> string" where
  "stem_of p =
     (let name = name_of p
      in case rfind_dot name of
           None \<Rightarrow> name
         | Some i \<Rightarrow> if 0 < i \<and> i < length name - 1 then take i name else name)"

subsection \<open>The tree snapshot\<close>

text \<open>
  What the functions can observe of one entry below the root:
  \<^item> \<open>nkind\<close>: what \<open>is_file()\<close> and \<open>exists()\<close> answer (they follow symlinks; a
    dangling symlink is listed by \<open>rglob\<close> but does not exist);
  \<^item> \<open>st_size\<close>: \<open>stat().st_size\<close>, \<open>None\<close> when \<open>stat\<close> raises \<open>OSError\<close>;
  \<^item> \<open>content\<close>: \<open>read_text(errors="ignore")\<close>, \<open>None\<close> when it raises;
  \<^item> \<open>resolved\<close>: the parts of \<open>resolve()\<close>, \<open>None\<close> when it raises.
  The entries are in the order in which \<open>root.rglob("*")\<close> yields them.
\<close>

datatype kind = Regular | Directory | Dangling

record node =
  nkind :: kind
  st_size :: "nat option"
  content :: "string option"
  resolved :: "path option"

record snapshot =
  root_parts :: path
  entries :: "(path \<times> node) list"

datatype error = OSError | ValueError | ResolveError

definition node_at :: "snapshot \<Rightarrow> path \<Rightarrow> node option" where
  "node_at fs p = map_of (entries fs) p"

definition is_file :: "snapshot \<Rightarrow> path \<Rightarrow> bool" where
  "is_file fs p = (case node_at fs p of None \<Rightarrow> False | Some n \<Rightarrow> nkind n = Regular)"

definition path_exists :: "snapshot \<Rightarrow> path \<Rightarrow> bool" where
  "path_exists fs p = (case node_at fs p of None \<Rightarrow> False | Some n \<Rightarrow> nkind n \<noteq> Dangling)"

definition stat_size :: "snapshot \<Rightarrow> path \<Rightarrow> nat option" where
  "stat_size fs p =
     (case node_at fs p of
        None \<Rightarrow> None
      | Some n \<Rightarrow> if nkind n = Dangling then None else st_size n)"

definition read_text :: "snapshot \<Rightarrow> path \<Rightarrow> string option" where
  "read_text fs p =
     (case node_at fs p of
        None \<Rightarrow> None
      | Some n \<Rightarrow> if nkind n = Regular then content n else None)"

text \<open>\<open>p.resolve()\<close>: a path the snapshot does not list resolves to itself.\<close>

definition resolve :: "snapshot \<Rightarrow> path \<Rightarrow> path option" where
  "resolve fs p =
     (case node_at fs p of
        None \<Rightarrow> Some (root_parts fs @ p)
      | Some n \<Rightarrow> resolved n)"

subsection \<open>Tree Scanner (utils.py)\<close>

definition IGNORE_DIRS :: "string list" where
  "IGNORE_DIRS =
     [''.git'', ''node_modules'', ''dist'', ''build'', ''target'', ''vendor'',
      ''.venv'', ''venv'', ''__pycache__'', ''.pytest_cache'', ''.mypy_cache'',
      ''.next'', ''.turbo'', ''.parcel-cache'', ''.cache'']"

definition ignored :: "snapshot \<Rightarrow> path \<Rightarrow> bool" where
  "ignored fs p = list_ex (\<lambda>part. part \<in> set IGNORE_DIRS) (root_parts fs @ p)"

definition iter_repo_files :: "snapshot \<Rightarrow> path list" where
  "iter_repo_files fs = filter (\<lambda>p. \<not> ignored fs p \<and> is_file fs p) (map fst (entries fs))"

text \<open>
  \<open>build_tree\<close>: the loop over \<open>sorted(iter_repo_files(root), key=str)\<close>. The key is the
  string of the whole path, root included.
\<close>

definition tree_marker :: string where
  "tree_marker = ''... (truncated)''"

fun tree_loop :: "int \<Rightarrow> path list \<Rightarrow> string list \<Rightarrow> int \<Rightarrow> string list" where
  "tree_loop max_entries [] lines cnt = lines"
| "tree_loop max_entries (p # ps) lines cnt =
     (let lines' = lines @ [as_posix p];
          cnt' = cnt + 1
      in if cnt' \<ge> max_entries then lines' @ [tree_marker]
         else tree_loop max_entries ps lines' cnt')"

definition sorted_repo_files :: "snapshot \<Rightarrow> path list" where
  "sorted_repo_files fs =
     sort_key (\<lambda>p. path_str (root_parts fs @ p)) (iter_repo_files fs)"

definition tree_lines :: "snapshot \<Rightarrow> int \<Rightarrow> string list" where
  "tree_lines fs max_entries = tree_loop max_entries (sorted_repo_files fs) [] 0"

definition build_tree :: "snapshot \<Rightarrow> int \<Rightarrow> string" where
  "build_tree fs max_entries = join [nl] (tree_lines fs max_entries)"

subsection \<open>Python containers\<close>

text \<open>
  A \<open>Counter\<close> is a dict, and a dict keeps its keys in the order of their first
  insertion: an association list with distinct keys. \<open>c[k] += n\<close> updates an old key in
  place and appends a new one.
\<close>

type_synonym counter = "(string \<times> nat) list"

definition count_of :: "counter \<Rightarrow> string \<Rightarrow> nat" where
  "count_of c k = (case map_of c k of None \<Rightarrow> 0 | Some n \<Rightarrow> n)"

fun counter_add :: "counter \<Rightarrow> string \<Rightarrow> nat \<Rightarrow> counter" where
  "counter_add [] k n = [(k, n)]"
| "counter_add ((k', v) # c) k n =
     (if k' = k then (k', v + n) # c else (k', v) # counter_add c k n)"

text \<open>
  \<open>sorted(items, key=itemgetter(1), reverse=True)\<close>: Python's sort is stable also when
  reversed, so equal counts stay in insertion order. \<open>most_common(n)\<close> is
  \<open>heapq.nlargest(n, items, key)\<close>, documented to equal the first \<open>n\<close> of that list.
\<close>

definition sorted_desc :: "('a \<Rightarrow> int) \<Rightarrow> 'a list \<Rightarrow> 'a list" where
  "sorted_desc key xs = sort_key (\<lambda>x. - key x) xs"

definition most_common_all :: "counter \<Rightarrow> (string \<times> nat) list" where
  "most_common_all c = sorted_desc (\<lambda>kv. int (snd kv)) c"

definition most_common :: "nat \<Rightarrow> counter \<Rightarrow> (string \<times> nat) list" where
  "most_common n c = take n (most_common_all c)"

text \<open>\<open>xs[:n]\<close> for an integer \<open>n\<close>: a negative \<open>n\<close> counts from the end.\<close>

definition py_take :: "int \<Rightarrow> 'a list \<Rightarrow> 'a list" where
  "py_take n xs = (if 0 \<le> n then take (nat n) xs else take (length xs - nat (- n)) xs)"

text \<open>
  A \<open>set\<close> of strings under construction is the list of its elements in insertion order.
  \<open>for x in s\<close> visits the elements in the order of their hash-table slots. String hashes
  are salted per interpreter process, so the slot of an element is a parameter of the run
  (\<open>set_slot\<close> below); elements are visited by ascending slot.
\<close>

definition set_add :: "string list \<Rightarrow> string \<Rightarrow> string list" where
  "set_add s x = (if x \<in> set s then s else s @ [x])"

text \<open>The loop \<open>for e in xs: if e not in seen: seen.add(e); out.append(e)\<close>\<close>

fun dedupe :: "'a list \<Rightarrow> 'a list \<Rightarrow> 'a list" where
  "dedupe seen [] = []"
| "dedupe seen (e # es) =
     (if e \<in> set seen then dedupe seen es else e # dedupe (e # seen) es)"

subsection \<open>What the Python runtime contributes\<close>

text \<open>
  The matches of the three regular expressions that are not modelled here (group 1 of
  each match of \<open>JS_IMPORT_RE\<close>, \<open>JS_REQUIRE_RE\<close> and \<open>GO_IMPORT_RE\<close>, group 2 of each
  match of \<open>_ROUTE_RE\<close>, in the order of \<open>finditer\<close>), and the slot order of sets of
  strings. Every theorem below holds whatever these are.
\<close>

record runtime =
  js_import_paths :: "string \<Rightarrow> string list"
  js_require_paths :: "string \<Rightarrow> string list"
  go_import_paths :: "string \<Rightarrow> string list"
  route_literals :: "string \<Rightarrow> string list"
  set_slot :: "string list \<Rightarrow> string \<Rightarrow> nat"

definition set_iter :: "runtime \<Rightarrow> string list \<Rightarrow> string list" where
  "set_iter rt s = sort_key (set_slot rt s) s"

subsection \<open>The Python import pattern\<close>

text \<open>
  \<open>PY_IMPORT_RE\<close> is
  \<^verbatim>\<open>^\s*(?:from\s+([a-zA-Z0-9_\.]+)\s+import|import\s+([a-zA-Z0-9_\.]+))\<close> with \<open>re.M\<close>.
  Every quantifier in it is followed by a character that the quantified class excludes,
  so backtracking never finds a second way to match: from a line start the match is
  decided by skipping greedily. \<open>py_import_match\<close> gives the module token (group 1 or
  group 2) and the length of the match.
\<close>

definition is_modchar :: "char \<Rightarrow> bool" where
  "is_modchar c =
     (let n = (of_char c :: nat)
      in (97 \<le> n \<and> n \<le> 122) \<or> (65 \<le> n \<and> n \<le> 90) \<or> (48 \<le> n \<and> n \<le> 57)
         \<or> n = 95 \<or> n = 46)"

definition py_import_match :: "string \<Rightarrow> (string \<times> nat) option" where
  "py_import_match s =
     (let ws = takeWhile is_space s;
          r1 = dropWhile is_space s
      in if prefix ''from'' r1 then
           (let r2 = drop 4 r1;
                ws2 = takeWhile is_space r2;
                r3 = dropWhile is_space r2;
                m = takeWhile is_modchar r3;
                r4 = dropWhile is_modchar r3;
                ws3 = takeWhile is_space r4;
                r5 = dropWhile is_space r4
            in if ws2 \<noteq> [] \<and> m \<noteq> [] \<and> ws3 \<noteq> [] \<and> prefix ''import'' r5
               then Some (m, length ws + 4 + length ws2 + length m + length ws3 + 6)
               else None)
         else if prefix ''import'' r1 then
           (let r2 = drop 6 r1;
                ws2 = takeWhile is_space r2;
                r3 = dropWhile is_space r2;
                m = takeWhile is_modchar r3
            in if ws2 \<noteq> [] \<and> m \<noteq> []
               then Some (m, length ws + 6 + length ws2 + length m)
               else None)
         else None)"

text \<open>
  \<open>finditer\<close>: the text is scanned from the left; \<open>^\<close> matches at the start of the text
  and after each newline; the search resumes where the last match ended. \<open>bol\<close> says that
  the position is a line start, \<open>skip\<close> counts the characters of a match still to pass.
\<close>

fun py_import_scan :: "bool \<Rightarrow> nat \<Rightarrow> string \<Rightarrow> string list" where
  "py_import_scan bol skip [] = []"
| "py_import_scan bol skip (c # cs) =
     (if skip > 0 then py_import_scan (c = nl) (skip - 1) cs
      else if bol then
        (case py_import_match (c # cs) of
           Some (m, len) \<Rightarrow> m # py_import_scan (c = nl) (len - 1) cs
         | None \<Rightarrow> py_import_scan (c = nl) 0 cs)
      else py_import_scan (c = nl) 0 cs)"

definition PY_IMPORT_finditer :: "string \<Rightarrow> string list" where
  "PY_IMPORT_finditer s = py_import_scan True 0 s"

subsection \<open>Import Graph Builder (utils.py)\<close>

definition safe_read_text :: "snapshot \<Rightarrow> path \<Rightarrow> nat \<Rightarrow> string" where
  "safe_read_text fs p max_chars =
     (case read_text fs p of None \<Rightarrow> [] | Some t \<Rightarrow> take max_chars t)"

text \<open>\<open>_build_basename_index\<close>: a dict from the lowercase stem to the list of paths.\<close>

type_synonym basename_index = "(string \<times> path list) list"

fun index_append :: "basename_index \<Rightarrow> string \<Rightarrow> path \<Rightarrow> basename_index" where
  "index_append [] stem p = [(stem, [p])]"
| "index_append ((k, ps) # idx) stem p =
     (if k = stem then (k, ps @ [p]) # idx else (k, ps) # index_append idx stem p)"

definition build_basename_index :: "snapshot \<Rightarrow> basename_index" where
  "build_basename_index fs =
     foldl (\<lambda>idx p. index_append idx (lower (stem_of p)) p) [] (iter_repo_files fs)"

definition index_get :: "basename_index \<Rightarrow> string \<Rightarrow> path list" where
  "index_get idx base = (case map_of idx base of None \<Rightarrow> [] | Some ps \<Rightarrow> ps)"

text \<open>\<open>for tgt in basename_idx.get(base, []): refs.add(relposix(tgt))\<close>\<close>

definition add_targets :: "basename_index \<Rightarrow> string list \<Rightarrow> string \<Rightarrow> string list" where
  "add_targets idx refs base = foldl (\<lambda>r tgt. set_add r (as_posix tgt)) refs (index_get idx base)"

definition py_refs :: "basename_index \<Rightarrow> string \<Rightarrow> string list" where
  "py_refs idx text =
     foldl (\<lambda>refs m.
              (let modname = strip m
               in if modname = [] then refs
                  else add_targets idx refs (lower (last (split_on CHR ''.'' modname)))))
       [] (PY_IMPORT_finditer text)"

definition js_refs :: "runtime \<Rightarrow> basename_index \<Rightarrow> string \<Rightarrow> string list" where
  "js_refs rt idx text =
     (let refs1 =
            foldl (\<lambda>refs g.
                     (let path = strip g
                      in if startswith path ''.''
                         then add_targets idx refs
                                (lower (hd (split_on CHR ''.'' (name_of (parse_posix path)))))
                         else add_targets idx refs
                                (lower (hd (split_on CHR ''.'' (last (split_on CHR ''/'' path)))))))
              [] (js_import_paths rt text)
      in foldl (\<lambda>refs g.
                  (let path = strip g
                   in add_targets idx refs
                        (lower (hd (split_on CHR ''.'' (name_of (parse_posix path)))))))
           refs1 (js_require_paths rt text))"

definition go_refs :: "runtime \<Rightarrow> basename_index \<Rightarrow> string \<Rightarrow> string list" where
  "go_refs rt idx text =
     foldl (\<lambda>refs g.
              (let imp = strip g
               in add_targets idx refs
                    (lower (hd (split_on CHR ''.'' (last (split_on CHR ''/'' imp)))))))
       [] (go_import_paths rt text)"

text \<open>The set \<open>refs\<close> of one source file with the text read from it.\<close>

definition source_refs :: "runtime \<Rightarrow> basename_index \<Rightarrow> path \<Rightarrow> string \<Rightarrow> string list" where
  "source_refs rt idx src text =
     (let suf = lower (suffix_of src)
      in if suf = ''.py'' then py_refs idx text
         else if suf \<in> set [''.js'', ''.ts'', ''.tsx'', ''.jsx''] then js_refs rt idx text
         else if suf = ''.go'' then go_refs rt idx text
         else [])"

text \<open>The body of \<open>for src in candidates\<close>, on the two counters.\<close>

definition scan_source ::
  "runtime \<Rightarrow> snapshot \<Rightarrow> basename_index \<Rightarrow> counter \<times> counter \<Rightarrow> path \<Rightarrow> counter \<times> counter" where
  "scan_source rt fs idx io src =
     (let text = safe_read_text fs src 80000
      in if text = [] then io
         else
           (let src_rel = as_posix src;
                refs = source_refs rt idx src text
            in if refs = [] then io
               else
                 (foldl (\<lambda>inbound tgt_rel.
                           if tgt_rel \<noteq> src_rel then counter_add inbound tgt_rel 1
                           else inbound)
                    (fst io) (set_iter rt refs),
                  counter_add (snd io) src_rel (length refs))))"

text \<open>
  The candidates: the files with a code suffix, sorted by size, largest first, cut to
  \<open>max_files_to_scan\<close>. The sort key is \<open>p.stat().st_size if p.exists() else 0\<close>; a
  \<open>stat\<close> that raises ends the whole call.
\<close>

definition size_key :: "snapshot \<Rightarrow> path \<Rightarrow> error + nat" where
  "size_key fs p =
     (if path_exists fs p
      then (case stat_size fs p of None \<Rightarrow> Inl OSError | Some n \<Rightarrow> Inr n)
      else Inr 0)"

fun keyed :: "('a \<Rightarrow> error + nat) \<Rightarrow> 'a list \<Rightarrow> error + (nat \<times> 'a) list" where
  "keyed key [] = Inr []"
| "keyed key (x # xs) =
     (case key x of
        Inl e \<Rightarrow> Inl e
      | Inr k \<Rightarrow> (case keyed key xs of Inl e \<Rightarrow> Inl e | Inr kxs \<Rightarrow> Inr ((k, x) # kxs)))"

definition code_suffixes :: "string list" where
  "code_suffixes = [''.py'', ''.js'', ''.ts'', ''.tsx'', ''.jsx'', ''.go'']"

definition scan_candidates :: "snapshot \<Rightarrow> int \<Rightarrow> error + path list" where
  "scan_candidates fs max_files_to_scan =
     (case keyed (size_key fs)
             (filter (\<lambda>p. lower (suffix_of p) \<in> set code_suffixes) (iter_repo_files fs)) of
        Inl e \<Rightarrow> Inl e
      | Inr kps \<Rightarrow>
          Inr (py_take max_files_to_scan (map snd (sorted_desc (\<lambda>kp. int (fst kp)) kps))))"

definition collect_import_centrality ::
  "runtime \<Rightarrow> snapshot \<Rightarrow> int \<Rightarrow> error + counter \<times> counter" where
  "collect_import_centrality rt fs max_files_to_scan =
     (case scan_candidates fs max_files_to_scan of
        Inl e \<Rightarrow> Inl e
      | Inr candidates \<Rightarrow>
          Inr (foldl (scan_source rt fs (build_basename_index fs)) ([], []) candidates))"

subsection \<open>Importance Scorer (utils.py)\<close>

definition PRIORITY_FILES :: "string list" where
  "PRIORITY_FILES =
     [''README.md'', ''README.rst'', ''README.txt'',
      ''pyproject.toml'', ''requirements.txt'', ''Pipfile'', ''poetry.lock'', ''setup.py'',
      ''package.json'', ''pnpm-lock.yaml'', ''yarn.lock'', ''package-lock.json'',
      ''go.mod'', ''go.sum'',
      ''pom.xml'', ''build.gradle'', ''build.gradle.kts'',
      ''Dockerfile'', ''docker-compose.yml'', ''Makefile'',
      ''terraform.tf'', ''main.tf'',
      ''serverless.yml'', ''template.yaml'']"

definition CODE_DIR_HINTS :: "string list" where
  "CODE_DIR_HINTS =
     [''src'', ''app'', ''apps'', ''api'', ''server'', ''backend'', ''frontend'', ''cmd'',
      ''pkg'', ''internal'', ''lib'']"

definition DEPRIORITIZE_DIRS :: "string list" where
  "DEPRIORITIZE_DIRS =
     [''docs'', ''doc'', ''documentation'', ''site'', ''website'', ''examples'', ''example'',
      ''demo'', ''demos'', ''public'']"

definition ENTRY_FILENAMES :: "string list" where
  "ENTRY_FILENAMES =
     [''main.py'', ''app.py'', ''server.py'', ''wsgi.py'', ''asgi.py'',
      ''index.js'', ''index.ts'', ''server.js'', ''server.ts'', ''app.js'', ''app.ts'',
      ''main.go'', ''main.java'']"

text \<open>Tier 1: the priority files at depth at most one, then the README loop.\<close>

definition near_root_priority :: "snapshot \<Rightarrow> path list" where
  "near_root_priority fs =
     filter (\<lambda>p. count_char (as_posix p) CHR ''/'' \<le> 1 \<and> name_of p \<in> set PRIORITY_FILES)
       (iter_repo_files fs)"

definition readme_step :: "snapshot \<Rightarrow> path list \<Rightarrow> string \<Rightarrow> path list" where
  "readme_step fs pinned rn =
     (let rp = [rn]
      in if path_exists fs rp \<and> rp \<notin> set pinned then rp # pinned else pinned)"

definition pinned_tier :: "snapshot \<Rightarrow> path list" where
  "pinned_tier fs =
     foldl (readme_step fs) (near_root_priority fs) [''README.md'', ''README.rst'', ''README.txt'']"

text \<open>Tier 2: entry file names anywhere.\<close>

definition entry_tier :: "snapshot \<Rightarrow> path list" where
  "entry_tier fs = filter (\<lambda>p. lower (name_of p) \<in> set ENTRY_FILENAMES) (iter_repo_files fs)"

text \<open>Tier 3: the 80 most referenced files that exist as regular files.\<close>

definition central_tier :: "snapshot \<Rightarrow> counter \<Rightarrow> (nat \<times> path) list" where
  "central_tier fs inbound =
     map (\<lambda>(rel, score). (score, parse_posix rel))
       (filter (\<lambda>(rel, score). path_exists fs (parse_posix rel) \<and> is_file fs (parse_posix rel))
          (most_common 80 inbound))"

text \<open>
  Tier 4: the heuristic score of one file; \<open>None\<close> where the loop body ends in
  \<open>continue\<close> (a \<open>stat\<close> that raises, or a size above 350000).
\<close>

definition intersects :: "string list \<Rightarrow> string list \<Rightarrow> bool" where
  "intersects xs ys = list_ex (\<lambda>x. x \<in> set ys) xs"

definition heuristic_score :: "snapshot \<Rightarrow> counter \<Rightarrow> path \<Rightarrow> int option" where
  "heuristic_score fs outbound p =
     (let rel_str = lower (as_posix p);
          name = name_of p;
          lowname = lower name;
          s1 = (if name \<in> set PRIORITY_FILES then 120 else 0);
          s2 = s1 + (if intersects p CODE_DIR_HINTS then 40 else 0);
          s3 = s2 - (if intersects p DEPRIORITIZE_DIRS then 35 else 0);
          s4 = s3 + (if lowname \<in> set ENTRY_FILENAMES then 90 else 0);
          s5 = s4 + (if list_ex (endswith lowname)
                          [''routes.py'', ''router.py'', ''handlers.go'', ''controller.ts'',
                           ''controller.js'', ''urls.py'']
                     then 45 else 0);
          s6 = s5 + (if list_ex (contains rel_str)
                          [''route'', ''router'', ''controller'', ''handler'', ''endpoint'',
                           ''service'']
                     then 20 else 0);
          s7 = s6 + (if list_ex (contains rel_str)
                          [''config'', ''settings'', ''infra'', ''deploy'', ''.github'']
                     then 15 else (0::int))
      in case stat_size fs p of
           None \<Rightarrow> None
         | Some sz \<Rightarrow>
             if sz > 350000 then None
             else Some (s7 - int (sz div 12000)
                        + (if count_of outbound (as_posix p) \<ge> 8 then 25 else 0)))"

definition heuristic_candidates :: "snapshot \<Rightarrow> counter \<Rightarrow> (int \<times> path) list" where
  "heuristic_candidates fs outbound =
     concat (map (\<lambda>p. case heuristic_score fs outbound p of
                         None \<Rightarrow> []
                       | Some score \<Rightarrow> if score > 0 then [(score, p)] else [])
               (iter_repo_files fs))"

definition heuristic_tier :: "snapshot \<Rightarrow> counter \<Rightarrow> (int \<times> path) list" where
  "heuristic_tier fs outbound = sorted_desc fst (heuristic_candidates fs outbound)"

text \<open>
  \<open>add_unique\<close>. The set \<open>seen\<close> is built from \<open>x.resolve()\<close> of everything collected so
  far, outside any \<open>try\<close>; inside the loop a \<open>resolve\<close> that raises falls back to the
  path itself.
\<close>

definition resolve_or_self :: "snapshot \<Rightarrow> path \<Rightarrow> path" where
  "resolve_or_self fs it = (case resolve fs it of Some rp \<Rightarrow> rp | None \<Rightarrow> root_parts fs @ it)"

fun add_loop :: "snapshot \<Rightarrow> path list \<Rightarrow> path list \<Rightarrow> path list \<Rightarrow> path list" where
  "add_loop fs out seen [] = out"
| "add_loop fs out seen (it # items) =
     (let rp = resolve_or_self fs it
      in if rp \<notin> set seen then add_loop fs (out @ [it]) (rp # seen) items
         else add_loop fs out seen items)"

definition add_unique :: "snapshot \<Rightarrow> path list \<Rightarrow> path list \<Rightarrow> error + path list" where
  "add_unique fs out items =
     (case those (map (resolve fs) out) of
        None \<Rightarrow> Inl ResolveError
      | Some seen \<Rightarrow> Inr (add_loop fs out seen items))"

definition and_then :: "error + 'a \<Rightarrow> ('a \<Rightarrow> error + 'b) \<Rightarrow> error + 'b" where
  "and_then r f = (case r of Inl e \<Rightarrow> Inl e | Inr x \<Rightarrow> f x)"

text \<open>The four calls of \<open>add_unique\<close>, before the final cut.\<close>

definition merge_tiers ::
  "snapshot \<Rightarrow> path list \<Rightarrow> path list \<Rightarrow> path list \<Rightarrow> path list \<Rightarrow> error + path list" where
  "merge_tiers fs pinned entry central candidates =
     and_then (add_unique fs [] pinned) (\<lambda>picked1.
     and_then (add_unique fs picked1 entry) (\<lambda>picked2.
     and_then (add_unique fs picked2 central) (\<lambda>picked3.
     add_unique fs picked3 candidates)))"

definition pick_important_files :: "runtime \<Rightarrow> snapshot \<Rightarrow> int \<Rightarrow> error + path list" where
  "pick_important_files rt fs max_files =
     (case collect_import_centrality rt fs 250 of
        Inl e \<Rightarrow> Inl e
      | Inr (inbound, outbound) \<Rightarrow>
          (case merge_tiers fs (pinned_tier fs) (entry_tier fs)
                  (map snd (central_tier fs inbound))
                  (map snd (heuristic_tier fs outbound)) of
             Inl e \<Rightarrow> Inl e
           | Inr picked \<Rightarrow> Inr (py_take max_files picked)))"

subsection \<open>Language Signal Extractor (signals.py)\<close>

definition EXT_LANG :: "(string \<times> string) list" where
  "EXT_LANG =
     [(''.py'', ''Python''), (''.js'', ''JavaScript''), (''.ts'', ''TypeScript''),
      (''.tsx'', ''TypeScript''), (''.jsx'', ''JavaScript''), (''.go'', ''Go''),
      (''.java'', ''Java''), (''.kt'', ''Kotlin''), (''.rb'', ''Ruby''), (''.php'', ''PHP''),
      (''.rs'', ''Rust''), (''.c'', ''C''), (''.cc'', ''C++''), (''.cpp'', ''C++''),
      (''.h'', ''C/C++''), (''.hpp'', ''C++''), (''.cs'', ''C#'')]"

text \<open>The ignore set of \<open>signals.py\<close>: it is smaller than that of \<open>utils.py\<close>.\<close>

definition signals_IGNORE_DIRS :: "string list" where
  "signals_IGNORE_DIRS =
     [''.git'', ''.venv'', ''venv'', ''__pycache__'', ''node_modules'', ''dist'', ''build'',
      ''.next'', ''.cache'', ''.pytest_cache'', ''.mypy_cache'']"

definition ENTRYPOINT_FILES_NEAR_ROOT :: "string list" where
  "ENTRYPOINT_FILES_NEAR_ROOT =
     [''manage.py'', ''pyproject.toml'', ''requirements.txt'', ''setup.py'', ''Pipfile'',
      ''poetry.lock'', ''environment.yml'', ''Dockerfile'', ''docker-compose.yml'',
      ''compose.yml'', ''Makefile'', ''package.json'', ''pnpm-lock.yaml'', ''yarn.lock'',
      ''package-lock.json'', ''go.mod'', ''pom.xml'', ''build.gradle'', ''build.gradle.kts'',
      ''README.md'', ''README.rst'', ''README.txt'']"

definition ENTRYPOINT_FILES_ANYWHERE :: "string list" where
  "ENTRYPOINT_FILES_ANYWHERE =
     [''app.py'', ''main.py'', ''server.py'', ''wsgi.py'', ''asgi.py'', ''manage.py'',
      ''index.js'', ''index.ts'', ''app.js'', ''app.ts'', ''server.js'', ''server.ts'',
      ''main.go'', ''Main.java'', ''main.java'']"

definition manifest_names :: "string list" where
  "manifest_names =
     [''package.json'', ''pyproject.toml'', ''go.mod'', ''pom.xml'', ''build.gradle'',
      ''build.gradle.kts'']"

definition iter_files :: "snapshot \<Rightarrow> path list" where
  "iter_files fs =
     filter (\<lambda>p. is_file fs p \<and> \<not> intersects (root_parts fs @ p) signals_IGNORE_DIRS)
       (map fst (entries fs))"

definition language_counts :: "snapshot \<Rightarrow> counter" where
  "language_counts fs =
     foldl (\<lambda>lang_counts p.
              (case map_of EXT_LANG (lower (suffix_of p)) of
                 None \<Rightarrow> lang_counts
               | Some lang \<Rightarrow> if lang \<noteq> [] then counter_add lang_counts lang 1 else lang_counts))
       [] (iter_files fs)"

definition entrypoints_near_root_of :: "snapshot \<Rightarrow> string list" where
  "entrypoints_near_root_of fs =
     dedupe []
       (map as_posix
          (filter (\<lambda>p. count_char (as_posix p) CHR ''/'' \<le> 1
                        \<and> name_of p \<in> set ENTRYPOINT_FILES_NEAR_ROOT)
             (iter_files fs)))"

definition entrypoints_anywhere_of :: "snapshot \<Rightarrow> string list" where
  "entrypoints_anywhere_of fs =
     dedupe []
       (map as_posix (filter (\<lambda>p. name_of p \<in> set ENTRYPOINT_FILES_ANYWHERE) (iter_files fs)))"

definition manifest_paths_of :: "snapshot \<Rightarrow> string list" where
  "manifest_paths_of fs =
     map as_posix (filter (\<lambda>p. name_of p \<in> set manifest_names) (iter_files fs))"

text \<open>\<open>Path(x).parent.as_posix()\<close>\<close>

definition parent_posix :: "string \<Rightarrow> string" where
  "parent_posix x = as_posix (butlast (parse_posix x))"

text \<open>\<open>len({Path(x).parent.as_posix() for x in manifest_paths}) >= 2\<close>\<close>

definition monorepo_hint_of :: "snapshot \<Rightarrow> bool" where
  "monorepo_hint_of fs = (length (remdups (map parent_posix (manifest_paths_of fs))) \<ge> 2)"

definition route_candidates :: "snapshot \<Rightarrow> string list \<Rightarrow> string list \<Rightarrow> path list" where
  "route_candidates fs ep_root ep_any =
     map parse_posix
       (filter (\<lambda>rel. list_ex (endswith rel) [''.py'', ''.js'', ''.ts'']
                       \<and> path_exists fs (parse_posix rel) \<and> is_file fs (parse_posix rel))
          (ep_root @ ep_any))
     @ map parse_posix
         (filter (\<lambda>fallback. path_exists fs (parse_posix fallback) \<and> is_file fs (parse_posix fallback))
            [''app.py'', ''main.py'', ''server.py'', ''index.js'', ''src/index.js''])"

definition routes_sample_of :: "runtime \<Rightarrow> snapshot \<Rightarrow> string list \<Rightarrow> string list \<Rightarrow> string list" where
  "routes_sample_of rt fs ep_root ep_any =
     take 20
       (dedupe []
          (concat
             (map (\<lambda>fp. case read_text fs fp of
                           None \<Rightarrow> []
                         | Some txt \<Rightarrow>
                             filter (\<lambda>route. startswith route ''/'' \<and> length route \<le> 60)
                               (route_literals rt txt))
                (take 6 (route_candidates fs ep_root ep_any)))))"

record signals =
  languages :: "string list"
  language_rank :: "string list"
  language_counts_field :: counter
  primary_language :: "string option"
  entrypoints_near_root :: "string list"
  entrypoints_anywhere :: "string list"
  entrypoints :: "string list"
  monorepo_hint :: bool
  manifest_paths :: "string list"
  routes_sample :: "string list"
  framework_hints :: "string list"
  capability_evidence :: "(string \<times> string list) list"

definition build_signals :: "runtime \<Rightarrow> snapshot \<Rightarrow> signals" where
  "build_signals rt fs =
     (let lang_counts = language_counts fs;
          rank = map fst (most_common_all lang_counts);
          ep_root = entrypoints_near_root_of fs;
          ep_any = entrypoints_anywhere_of fs
      in \<lparr> languages = rank,
           language_rank = rank,
           language_counts_field = lang_counts,
           primary_language = (case rank of [] \<Rightarrow> None | l # _ \<Rightarrow> Some l),
           entrypoints_near_root = ep_root,
           entrypoints_anywhere = ep_any,
           entrypoints = ep_root,
           monorepo_hint = monorepo_hint_of fs,
           manifest_paths = take 30 (manifest_paths_of fs),
           routes_sample = routes_sample_of rt fs ep_root ep_any,
           framework_hints = [],
           capability_evidence = [] \<rparr>)"

subsection \<open>Evidence Budget Reader (utils.py)\<close>

text \<open>
  A \<open>Path\<close> handed to \<open>read_files\<close> by its caller is below the root or not;
  \<open>p.relative_to(root)\<close> raises \<open>ValueError\<close> for the second kind.
\<close>

datatype fpath = InRoot path | Elsewhere path

fun relative_to_root :: "fpath \<Rightarrow> path option" where
  "relative_to_root (InRoot rel) = Some rel"
| "relative_to_root (Elsewhere p) = None"

definition truncation_marker :: string where
  "truncation_marker = [nl, nl] @ ''... (content truncated to fit context budget)''"

definition format_block :: "path \<Rightarrow> string \<Rightarrow> string" where
  "format_block rel snippet =
     [nl, nl] @ ''===== FILE: '' @ as_posix rel @ '' ====='' @ [nl] @ snippet"

fun read_loop :: "snapshot \<Rightarrow> int \<Rightarrow> fpath list \<Rightarrow> string list \<Rightarrow> nat \<Rightarrow> error + string list" where
  "read_loop fs max_total_chars [] chunks tot = Inr chunks"
| "read_loop fs max_total_chars (p # ps) chunks tot =
     (case relative_to_root p of
        None \<Rightarrow> Inl ValueError
      | Some rel \<Rightarrow>
          (case read_text fs rel of
             None \<Rightarrow> read_loop fs max_total_chars ps chunks tot
           | Some text \<Rightarrow>
               (let snippet = take 28000 text;
                    block = format_block rel snippet
                in if int (tot + length block) > max_total_chars
                   then Inr (chunks @ [truncation_marker])
                   else read_loop fs max_total_chars ps (chunks @ [block]) (tot + length block))))"

definition read_files :: "snapshot \<Rightarrow> fpath list \<Rightarrow> int \<Rightarrow> error + string" where
  "read_files fs files max_total_chars =
     (case read_loop fs max_total_chars files [] 0 of
        Inl e \<Rightarrow> Inl e
      | Inr chunks \<Rightarrow> Inr (concat chunks))"

subsection \<open>The pipeline (analyzer/analyze.py)\<close>


subsection \<open>Notions used in the statements\<close>

text \<open>The blocks of the files that can be read, in the order of the files.\<close>

fun file_blocks :: "snapshot \<Rightarrow> path list \<Rightarrow> string list" where
  "file_blocks fs [] = []"
| "file_blocks fs (rel # rels) =
     (case read_text fs rel of
        None \<Rightarrow> file_blocks fs rels
      | Some text \<Rightarrow> format_block rel (take 28000 text) # file_blocks fs rels)"

text \<open>How many leading blocks fit below the cap, counting from a running sum.\<close>

fun fit :: "int \<Rightarrow> nat \<Rightarrow> string list \<Rightarrow> nat" where
  "fit cap tot [] = 0"
| "fit cap tot (b # bs) =
     (if int (tot + length b) > cap then 0 else Suc (fit cap (tot + length b) bs))"

text \<open>
  What a file system guarantees of the relative paths it lists: a path has a part, and
  a part is not empty, is not \<open>.\<close> and has no separator in it.
\<close>

definition wf_part :: "string \<Rightarrow> bool" where
  "wf_part w = (w \<noteq> [] \<and> w \<noteq> ''.'' \<and> CHR ''/'' \<notin> set w)"

definition wf_rel :: "path \<Rightarrow> bool" where
  "wf_rel p = (p \<noteq> [] \<and> list_all wf_part p)"

definition wf_snapshot :: "snapshot \<Rightarrow> bool" where
  "wf_snapshot fs = list_all wf_rel (map fst (entries fs))"

text \<open>The tree without the entries of one path.\<close>

definition without_entry :: "snapshot \<Rightarrow> path \<Rightarrow> snapshot" where
  "without_entry fs p = fs \<lparr> entries := filter (\<lambda>e. fst e \<noteq> p) (entries fs) \<rparr>"

text \<open>
  The set \<open>refs\<close> that the loop of \<open>_collect_import_centrality\<close> builds for one source,
  empty where the loop skips the source because no text could be read.
\<close>

definition refs_of :: "runtime \<Rightarrow> snapshot \<Rightarrow> basename_index \<Rightarrow> path \<Rightarrow> string list" where
  "refs_of rt fs idx src =
     (let text = safe_read_text fs src 80000
      in if text = [] then [] else source_refs rt idx src text)"

subsection \<open>Example trees\<close>

definition regular :: "path \<Rightarrow> path \<Rightarrow> nat \<Rightarrow> string \<Rightarrow> path \<times> node" where
  "regular root p n body =
     (p, \<lparr> nkind = Regular, st_size = Some n, content = Some body, resolved = Some (root @ p) \<rparr>)"

definition directory :: "path \<Rightarrow> path \<Rightarrow> path \<times> node" where
  "directory root p =
     (p, \<lparr> nkind = Directory, st_size = Some 4096, content = None, resolved = Some (root @ p) \<rparr>)"

text \<open>A runtime that finds no JavaScript or Go import and no route, with one slot order.\<close>

definition plain_runtime :: runtime where
  "plain_runtime =
     \<lparr> js_import_paths = (\<lambda>_. []), js_require_paths = (\<lambda>_. []),
       go_import_paths = (\<lambda>_. []), route_literals = (\<lambda>_. []),
       set_slot = (\<lambda>_ _. 0) \<rparr>"

definition demo_root :: path where
  "demo_root = [''/'', ''srv'', ''repo'']"

definition demo_main_text :: string where
  "demo_main_text = ''import utils'' @ [nl]"

definition demo_tree :: snapshot where
  "demo_tree =
     \<lparr> root_parts = demo_root,
       entries =
         [regular demo_root [''main.py''] 13 demo_main_text,
          regular demo_root [''README.md''] 5 ''hello'',
          regular demo_root [''utils.py''] 3 ''x=1'',
          directory demo_root [''src''],
          regular demo_root [''src'', ''routes.py''] 4 ''pass'' ] \<rparr>"

text \<open>A tree whose enumeration yields another priority file before the README.\<close>

definition readme_second_tree :: snapshot where
  "readme_second_tree =
     \<lparr> root_parts = demo_root,
       entries =
         [regular demo_root [''Dockerfile''] 20 ''FROM scratch'',
          regular demo_root [''README.md''] 5 ''hello''] \<rparr>"

text \<open>A file that imports a module of its own name.\<close>

definition self_import_tree :: snapshot where
  "self_import_tree =
     \<lparr> root_parts = demo_root,
       entries = [regular demo_root [''utils.py''] 12 ''import utils''] \<rparr>"



text \<open>Manifests under two parent directories.\<close>

definition mono_tree :: snapshot where
  "mono_tree =
     \<lparr> root_parts = demo_root,
       entries =
         [regular demo_root [''package.json''] 2 ''{}'',
          directory demo_root [''svc''],
          regular demo_root [''svc'', ''go.mod''] 8 ''module x''] \<rparr>"





text \<open>
  Forty priority files one directory below the root, and an entry file above the size
  ceiling that the enumeration yields last.
\<close>

definition crowded_dirs :: "string list" where
  "crowded_dirs =
     [''a'', ''b'', ''c'', ''d'', ''e'', ''f'', ''g'', ''h'', ''i'', ''j'',
      ''k'', ''l'', ''m'', ''n'', ''o'', ''p'', ''q'', ''r'', ''s'', ''t'']"

definition crowded_tree :: snapshot where
  "crowded_tree =
     \<lparr> root_parts = demo_root,
       entries =
         concat (map (\<lambda>d. [directory demo_root [d],
                            regular demo_root [d, ''go.mod''] 9 ''module m'',
                            regular demo_root [d, ''go.sum''] 0 []]) crowded_dirs)
         @ [regular demo_root [''main.py''] 400000 ''pass''] \<rparr>"

definition crowded_files :: "path list" where
  "crowded_files = concat (map (\<lambda>d. [[d, ''go.mod''], [d, ''go.sum'']]) crowded_dirs)"

text \<open>Regular files in an ignored directory and under an ignored name, and a directory.\<close>

definition listing_tree :: snapshot where
  "listing_tree =
     \<lparr> root_parts = demo_root,
       entries =
         [regular demo_root [''b.py''] 4 ''pass'',
          directory demo_root [''.git''],
          regular demo_root [''.git'', ''HEAD''] 4 ''ref:'',
          regular demo_root [''vendor''] 4 ''pass'',
          directory demo_root [''docs''],
          regular demo_root [''a.py''] 4 ''pass''] \<rparr>"

text \<open>An entry file above the size ceiling next to a README.\<close>

definition big_entry_tree :: snapshot where
  "big_entry_tree =
     \<lparr> root_parts = demo_root,
       entries =
         [regular demo_root [''README.md''] 5 ''hello'',
          regular demo_root [''main.py''] 400000 ''pass''] \<rparr>"

text \<open>A regular file named like an ignored directory, and a file that imports its name.\<close>

definition vendor_tree :: snapshot where
  "vendor_tree =
     \<lparr> root_parts = demo_root,
       entries =
         [regular demo_root [''README.md''] 5 ''hello'',
          regular demo_root [''main.py''] 13 ''import vendor'',
          regular demo_root [''vendor''] 3 ''x=1''] \<rparr>"

section \<open>Theorems\<close>

subsection \<open>The example tree, evaluated\<close>

lemma demo_iter: "iter_repo_files demo_tree =
    [[''main.py''], [''README.md''], [''utils.py''], [''src'', ''routes.py'']]"
  by (simp add: iter_repo_files_def demo_tree_def demo_root_def regular_def directory_def
        ignored_def IGNORE_DIRS_def is_file_def node_at_def)

lemma demo_root_parts: "root_parts demo_tree = [''/'', ''srv'', ''repo'']"
  by (simp add: demo_tree_def demo_root_def)

lemma demo_sorted: "sorted_repo_files demo_tree =
    [[''README.md''], [''main.py''], [''src'', ''routes.py''], [''utils.py'']]"
  unfolding sorted_repo_files_def demo_iter demo_root_parts
  by (simp add: path_str_def)

lemma demo_blocks:
  "file_blocks demo_tree [[''README.md''], [''src''], [''utils.py'']]
     = [format_block [''README.md''] ''hello'', format_block [''utils.py''] ''x=1'']"
  by (simp add: read_text_def node_at_def demo_tree_def regular_def directory_def)

lemma lower_names:
  "lower ''README.md'' = ''readme.md'' \<and> lower ''Dockerfile'' = ''dockerfile''
   \<and> lower ''main.py'' = ''main.py'' \<and> lower ''utils.py'' = ''utils.py''
   \<and> lower ''routes.py'' = ''routes.py'' \<and> lower ''src/routes.py'' = ''src/routes.py''
   \<and> lower ''README'' = ''readme'' \<and> lower ''main'' = ''main'' \<and> lower ''utils'' = ''utils''
   \<and> lower ''routes'' = ''routes'' \<and> lower ''.py'' = ''.py'' \<and> lower ''.md'' = ''.md''
   \<and> lower [] = []"
  by code_simp

lemma demo_node:
  "node_at demo_tree p =
     map_of [regular demo_root [''main.py''] 13 demo_main_text,
          regular demo_root [''README.md''] 5 ''hello'',
          regular demo_root [''utils.py''] 3 ''x=1'',
          directory demo_root [''src''],
          regular demo_root [''src'', ''routes.py''] 4 ''pass'' ] p"
  by (simp add: node_at_def demo_tree_def)

lemma demo_pinned: "pinned_tier demo_tree = [[''README.md'']]"
  unfolding pinned_tier_def near_root_priority_def demo_iter
  by (simp add: readme_step_def count_char_def as_posix_def name_of_def PRIORITY_FILES_def
        path_exists_def demo_node regular_def directory_def)

lemma demo_entry: "entry_tier demo_tree = [[''main.py'']]"
  unfolding entry_tier_def demo_iter
  by (simp add: name_of_def ENTRY_FILENAMES_def lower_names)

lemma demo_index: "build_basename_index demo_tree =
    [(''main'', [[''main.py'']]), (''readme'', [[''README.md'']]), (''utils'', [[''utils.py'']]),
     (''routes'', [[''src'', ''routes.py'']])]"
  unfolding build_basename_index_def demo_iter
  by (simp add: stem_of_def name_of_def lower_names)

lemma demo_candidates:
  "scan_candidates demo_tree 250 = Inr [[''main.py''], [''src'', ''routes.py''], [''utils.py'']]"
  unfolding scan_candidates_def demo_iter
  by (simp add: suffix_of_def name_of_def lower_names
        code_suffixes_def size_key_def path_exists_def stat_size_def demo_node
        regular_def directory_def sorted_desc_def py_take_def)

lemma demo_main_text_facts:
  "take 80000 demo_main_text = demo_main_text \<and> demo_main_text \<noteq> []"
  by (simp add: demo_main_text_def)

lemma demo_imports: "PY_IMPORT_finditer demo_main_text = [''utils'']"
  by (simp add: demo_main_text_def PY_IMPORT_finditer_def py_import_match_def is_space_def
        is_modchar_def Let_def nl_def)

lemma demo_no_imports: "PY_IMPORT_finditer ''x=1'' = [] \<and> PY_IMPORT_finditer ''pass'' = []"
  by (simp add: PY_IMPORT_finditer_def py_import_match_def is_space_def is_modchar_def Let_def nl_def)

lemma demo_scan_main:
  "scan_source plain_runtime demo_tree
      [(''main'', [[''main.py'']]), (''readme'', [[''README.md'']]), (''utils'', [[''utils.py'']]),
       (''routes'', [[''src'', ''routes.py'']])] ([], []) [''main.py'']
     = ([(''utils.py'', Suc 0)], [(''main.py'', Suc 0)])"
  by (simp add: scan_source_def safe_read_text_def read_text_def demo_node regular_def
        directory_def demo_main_text_facts source_refs_def suffix_of_def name_of_def
        lower_names py_refs_def demo_imports strip_def is_space_def
        add_targets_def index_get_def set_add_def as_posix_def set_iter_def plain_runtime_def
        Let_def)

lemma demo_scan_other:
  "scan_source plain_runtime demo_tree idx io [''src'', ''routes.py''] = io
   \<and> scan_source plain_runtime demo_tree idx io [''utils.py''] = io"
  by (simp add: scan_source_def safe_read_text_def read_text_def demo_node regular_def
        directory_def source_refs_def suffix_of_def name_of_def
        lower_names py_refs_def demo_no_imports Let_def)

lemma demo_collect:
  "collect_import_centrality plain_runtime demo_tree 250
     = Inr ([(''utils.py'', Suc 0)], [(''main.py'', Suc 0)])"
  unfolding collect_import_centrality_def demo_candidates demo_index
  by (simp add: demo_scan_main demo_scan_other)

lemma demo_central: "central_tier demo_tree [(''utils.py'', Suc 0)] = [(Suc 0, [''utils.py''])]"
  by (simp add: central_tier_def most_common_def most_common_all_def sorted_desc_def
        parse_posix_def path_exists_def is_file_def demo_node regular_def directory_def)

lemma demo_scores:
  "heuristic_candidates demo_tree [(''main.py'', Suc 0)] =
     [(90, [''main.py'']), (120, [''README.md'']), (105, [''src'', ''routes.py''])]"
  unfolding heuristic_candidates_def demo_iter
  by (simp add: heuristic_score_def Let_def as_posix_def name_of_def lower_names
        PRIORITY_FILES_def CODE_DIR_HINTS_def DEPRIORITIZE_DIRS_def ENTRY_FILENAMES_def
        intersects_def endswith_def stat_size_def demo_node regular_def
        directory_def count_of_def)

lemma demo_heuristic:
  "heuristic_tier demo_tree [(''main.py'', Suc 0)] =
     [(120, [''README.md'']), (105, [''src'', ''routes.py'']), (90, [''main.py''])]"
  unfolding heuristic_tier_def demo_scores by (simp add: sorted_desc_def)

lemma demo_merge:
  "merge_tiers demo_tree [[''README.md'']] [[''main.py'']] [[''utils.py'']]
      [[''README.md''], [''src'', ''routes.py''], [''main.py'']]
     = Inr [[''README.md''], [''main.py''], [''utils.py''], [''src'', ''routes.py'']]"
  by (simp add: merge_tiers_def and_then_def add_unique_def resolve_def resolve_or_self_def
        demo_node regular_def directory_def Let_def)

lemma demo_pick:
  "pick_important_files plain_runtime demo_tree 40
     = Inr [[''README.md''], [''main.py''], [''utils.py''], [''src'', ''routes.py'']]"
  unfolding pick_important_files_def demo_collect
  by (simp add: demo_pinned demo_entry demo_central demo_heuristic demo_merge py_take_def)


subsection \<open>Evidence Budget Reader\<close>

lemma read_loop_closed_form:
  "read_loop fs cap (map InRoot rels) chunks tot =
     Inr (chunks @ take (fit cap tot (file_blocks fs rels)) (file_blocks fs rels)
            @ (if fit cap tot (file_blocks fs rels) < length (file_blocks fs rels)
               then [truncation_marker] else []))"
proof (induction rels arbitrary: chunks tot)
  case Nil
  show ?case by simp
next
  case (Cons rel rels)
  show ?case
  proof (cases "read_text fs rel")
    case None
    then show ?thesis using Cons.IH by simp
  next
    case (Some body)
    then show ?thesis using Cons.IH by (simp add: Let_def)
  qed
qed

lemma fit_le_length: "fit cap tot bs \<le> length bs"
  by (induction bs arbitrary: tot) auto

lemma fit_within_cap:
  "int (tot + length (concat (take (fit cap tot bs) bs))) \<le> max cap (int tot)"
proof (induction bs arbitrary: tot)
  case Nil
  show ?case by simp
next
  case (Cons b bs)
  show ?case
  proof (cases "int (tot + length b) > cap")
    case True
    then show ?thesis by simp
  next
    case False
    have "int (tot + length b + length (concat (take (fit cap (tot + length b) bs) bs)))
            \<le> max cap (int (tot + length b))"
      using Cons.IH [of "tot + length b"] .
    with False show ?thesis by (simp add: add.assoc)
  qed
qed

lemma fit_next_overflows:
  "fit cap tot bs < length bs \<Longrightarrow>
     int (tot + length (concat (take (Suc (fit cap tot bs)) bs))) > cap"
proof (induction bs arbitrary: tot)
  case Nil
  then show ?case by simp
next
  case (Cons b bs)
  show ?case
  proof (cases "int (tot + length b) > cap")
    case True
    then show ?thesis by simp
  next
    case False
    with Cons.prems have "fit cap (tot + length b) bs < length bs" by simp
    from Cons.IH [OF this] False show ?thesis by (simp add: add.assoc)
  qed
qed

lemma file_blocks_content:
  "b \<in> set (file_blocks fs rels) \<Longrightarrow>
     \<exists>rel text. rel \<in> set rels \<and> read_text fs rel = Some text
        \<and> b = format_block rel (take 28000 text)"
  by (induction rels) (auto split: option.splits)

lemma read_loop_bound:
  "read_loop fs cap ps chunks tot = Inr out \<Longrightarrow> tot = length (concat chunks) \<Longrightarrow>
     int (length (concat out)) \<le> max cap (int tot) + int (length truncation_marker)"
proof (induction ps arbitrary: chunks tot)
  case Nil
  then show ?case by simp
next
  case (Cons p ps)
  show ?case
  proof (cases p)
    case (Elsewhere q)
    with Cons.prems show ?thesis by simp
  next
    case (InRoot rel)
    show ?thesis
    proof (cases "read_text fs rel")
      case None
      with InRoot Cons.prems have "read_loop fs cap ps chunks tot = Inr out" by simp
      from Cons.IH [OF this Cons.prems(2)] show ?thesis .
    next
      case (Some body)
      define block where "block = format_block rel (take 28000 body)"
      show ?thesis
      proof (cases "int (tot + length block) > cap")
        case True
        with InRoot Some Cons.prems have "out = chunks @ [truncation_marker]"
          by (simp add: Let_def block_def)
        with Cons.prems(2) show ?thesis by simp
      next
        case False
        with InRoot Some Cons.prems
        have run: "read_loop fs cap ps (chunks @ [block]) (tot + length block) = Inr out"
          by (simp add: Let_def block_def)
        have "tot + length block = length (concat (chunks @ [block]))"
          using Cons.prems(2) by simp
        from Cons.IH [OF run this] False show ?thesis by simp
      qed
    qed
  qed
qed

lemma read_files_bound:
  assumes "read_files fs files cap = Inr s" and "0 \<le> cap"
  shows "int (length s) \<le> cap + int (length truncation_marker)"
proof -
  from assms(1) obtain out where run: "read_loop fs cap files [] 0 = Inr out" and s: "s = concat out"
    by (auto simp: read_files_def split: sum.splits)
  from read_loop_bound [OF run] assms(2) s show ?thesis by simp
qed

lemma read_files_closed_form:
  "read_files fs (map InRoot rels) cap =
     Inr (concat (take (fit cap 0 (file_blocks fs rels)) (file_blocks fs rels))
          @ (if fit cap 0 (file_blocks fs rels) < length (file_blocks fs rels)
             then truncation_marker else []))"
  by (simp add: read_files_def read_loop_closed_form)

text \<open>
  Claim C1. For a cap that is not negative, the string that \<open>read_files\<close> returns is
  at most the cap plus the truncation marker long. For files below the root the string is
  the concatenation of the first \<open>k\<close> whole blocks of the readable files, followed by
  one truncation marker exactly when a block is left over; these \<open>k\<close> blocks fit below
  the cap and the next block would not; and the content of every block is the first
  28000 characters of its file.
\<close>

theorem read_files_budget:
  assumes "0 \<le> cap"
  shows "(\<forall>s. read_files fs files cap = Inr s \<longrightarrow>
            int (length s) \<le> cap + int (length truncation_marker))
       \<and> (\<exists>k \<le> length (file_blocks fs rels).
            read_files fs (map InRoot rels) cap
              = Inr (concat (take k (file_blocks fs rels))
                     @ (if k < length (file_blocks fs rels) then truncation_marker else []))
            \<and> int (length (concat (take k (file_blocks fs rels)))) \<le> cap
            \<and> (k < length (file_blocks fs rels) \<longrightarrow>
                 cap < int (length (concat (take (Suc k) (file_blocks fs rels))))))
       \<and> (\<forall>b \<in> set (file_blocks fs rels).
            \<exists>rel body. rel \<in> set rels \<and> read_text fs rel = Some body
              \<and> b = format_block rel (take 28000 body) \<and> length (take 28000 body) \<le> 28000)"
proof (intro conjI)
  show "\<forall>s. read_files fs files cap = Inr s \<longrightarrow>
            int (length s) \<le> cap + int (length truncation_marker)"
    using read_files_bound assms by blast
next
  let ?B = "file_blocks fs rels"
  let ?k = "fit cap 0 ?B"
  have a: "?k \<le> length ?B" by (rule fit_le_length)
  have b: "int (length (concat (take ?k ?B))) \<le> cap"
    using fit_within_cap [of 0 cap ?B] assms by simp
  have c: "?k < length ?B \<longrightarrow> cap < int (length (concat (take (Suc ?k) ?B)))"
    using fit_next_overflows [of cap 0 ?B] by simp
  from a b c read_files_closed_form [of fs rels cap]
  show "\<exists>k \<le> length ?B.
            read_files fs (map InRoot rels) cap
              = Inr (concat (take k ?B) @ (if k < length ?B then truncation_marker else []))
            \<and> int (length (concat (take k ?B))) \<le> cap
            \<and> (k < length ?B \<longrightarrow> cap < int (length (concat (take (Suc k) ?B))))"
    by blast
next
  show "\<forall>b \<in> set (file_blocks fs rels).
            \<exists>rel body. rel \<in> set rels \<and> read_text fs rel = Some body
              \<and> b = format_block rel (take 28000 body) \<and> length (take 28000 body) \<le> 28000"
    using file_blocks_content by fastforce
qed


lemma demo_read:
  "read_files demo_tree (map InRoot [[''README.md''], [''src''], [''utils.py'']]) 40
     = Inr (format_block [''README.md''] ''hello'' @ truncation_marker)"
  by (simp add: read_files_def read_text_def node_at_def demo_tree_def regular_def directory_def
        format_block_def as_posix_def Let_def)

theorem read_files_budget_witness:
  "(0::int) \<le> 40
   \<and> read_files demo_tree (map InRoot [[''README.md''], [''src''], [''utils.py'']]) 40
       = Inr (format_block [''README.md''] ''hello'' @ truncation_marker)
   \<and> int (length (format_block [''README.md''] ''hello'' @ truncation_marker))
       \<le> 40 + int (length truncation_marker)
   \<and> (\<exists>k. k < length (file_blocks demo_tree [[''README.md''], [''src''], [''utils.py'']])
          \<and> (40::int) < int (length (concat (take (Suc k)
                 (file_blocks demo_tree [[''README.md''], [''src''], [''utils.py'']])))))"
proof -
  let ?rels = "[[''README.md''], [''src''], [''utils.py'']] :: path list"
  have h: "(0::int) \<le> 40" by simp
  note th = read_files_budget [OF h, of demo_tree "map InRoot ?rels" ?rels]
  from th have bound: "int (length (format_block [''README.md''] ''hello'' @ truncation_marker))
       \<le> 40 + int (length truncation_marker)"
    using demo_read by blast
  from th obtain k where k: "k \<le> length (file_blocks demo_tree ?rels)"
     and eq: "read_files demo_tree (map InRoot ?rels) 40
              = Inr (concat (take k (file_blocks demo_tree ?rels))
                     @ (if k < length (file_blocks demo_tree ?rels) then truncation_marker else []))"
     and nxt: "k < length (file_blocks demo_tree ?rels) \<longrightarrow>
                 40 < int (length (concat (take (Suc k) (file_blocks demo_tree ?rels))))"
    by blast
  have "k < length (file_blocks demo_tree ?rels)"
  proof (rule ccontr)
    assume "\<not> k < length (file_blocks demo_tree ?rels)"
    with k have k2: "k = length (file_blocks demo_tree ?rels)" by simp
    from eq have "read_files demo_tree (map InRoot ?rels) 40
                    = Inr (concat (file_blocks demo_tree ?rels))"
      unfolding k2 by (simp del: file_blocks.simps)
    with demo_read have "format_block [''README.md''] ''hello'' @ truncation_marker
          = concat (file_blocks demo_tree ?rels)"
      by (simp del: file_blocks.simps)
    then show False
      unfolding demo_blocks by (simp add: format_block_def truncation_marker_def)
  qed
  with nxt have "\<exists>k. k < length (file_blocks demo_tree ?rels)
          \<and> (40::int) < int (length (concat (take (Suc k) (file_blocks demo_tree ?rels))))"
    by blast
  with h demo_read bound show ?thesis by blast
qed

subsection \<open>Tree listing\<close>

lemma tree_loop_closed_form:
  "0 \<le> cnt \<Longrightarrow> cnt < max_entries \<Longrightarrow>
     tree_loop max_entries ps lines cnt =
       lines @ map as_posix (take (nat (max_entries - cnt)) ps)
         @ (if max_entries - cnt \<le> int (length ps) then [tree_marker] else [])"
proof (induction ps arbitrary: lines cnt)
  case Nil
  then show ?case by simp
next
  case (Cons p ps)
  show ?case
  proof (cases "cnt + 1 \<ge> max_entries")
    case True
    with Cons.prems have "max_entries - cnt = 1" by simp
    with True show ?thesis by (simp add: Let_def)
  next
    case False
    then have lt: "cnt + 1 < max_entries" by simp
    have ge: "0 \<le> cnt + 1" using Cons.prems by simp
    have n: "nat (max_entries - cnt) = Suc (nat (max_entries - (cnt + 1)))"
      using lt Cons.prems by simp
    from Cons.IH [OF ge lt, of "lines @ [as_posix p]"] False n show ?thesis
      by (simp add: Let_def)
  qed
qed

lemma join_append:
  "xs \<noteq> [] \<Longrightarrow> ys \<noteq> [] \<Longrightarrow> join sep (xs @ ys) = join sep xs @ sep @ join sep ys"
proof (induction sep xs rule: join.induct)
  case (1 sep)
  then show ?case by simp
next
  case (2 sep x)
  then show ?case by (cases ys) simp_all
next
  case (3 sep x y ys')
  then show ?case by simp
qed

lemma path_str_below_root:
  "\<exists>pre. \<forall>p. p \<noteq> [] \<and> ''/'' \<notin> set p \<longrightarrow> path_str (root @ p) = pre @ join ''/'' p"
proof (cases root)
  case Nil
  have "\<forall>p. p \<noteq> [] \<and> ''/'' \<notin> set p \<longrightarrow> path_str ([] @ p) = [] @ join ''/'' p"
    by (auto simp: path_str_def split: list.splits)
  with Nil show ?thesis by blast
next
  case (Cons a r)
  show ?thesis
  proof (cases "a = ''/''")
    case True
    show ?thesis
    proof (cases "r = []")
      case True
      with \<open>a = ''/''\<close> Cons have "\<forall>p. p \<noteq> [] \<and> ''/'' \<notin> set p \<longrightarrow> path_str (root @ p) = ''/'' @ join ''/'' p"
        by (simp add: path_str_def)
      then show ?thesis by blast
    next
      case False
      with \<open>a = ''/''\<close> Cons have "\<forall>p. p \<noteq> [] \<and> ''/'' \<notin> set p \<longrightarrow>
          path_str (root @ p) = (''/'' @ join ''/'' r @ ''/'') @ join ''/'' p"
        by (simp add: path_str_def join_append)
      then show ?thesis by blast
    qed
  next
    case False
    with Cons have "\<forall>p. p \<noteq> [] \<and> ''/'' \<notin> set p \<longrightarrow>
          path_str (root @ p) = (join ''/'' root @ ''/'') @ join ''/'' p"
      using join_append [of root _ "''/''"] by (simp add: path_str_def)
    then show ?thesis by blast
  qed
qed

lemma common_prefix_le: "(pre @ a \<le> pre @ b) = (a \<le> (b :: string))"
  by (induction pre) auto

lemma sorted_common_prefix:
  "sorted (map (\<lambda>x. pre @ f x) xs) = sorted (map f (xs :: 'a list) :: string list)"
  by (induction xs) (auto simp: common_prefix_le)

lemma sorted_key_cong:
  "(\<And>x. x \<in> set xs \<Longrightarrow> f x = g x) \<Longrightarrow> sorted (map f xs) = sorted (map g xs)"
  by (simp cong: map_cong)

lemma wf_part_not_slash: "wf_part w \<Longrightarrow> w \<noteq> ''/''"
  by (auto simp: wf_part_def)

lemma iter_repo_files_subset: "set (iter_repo_files fs) \<subseteq> fst ` set (entries fs)"
  by (auto simp: iter_repo_files_def)

lemma wf_iter_repo_files:
  "wf_snapshot fs \<Longrightarrow> p \<in> set (iter_repo_files fs) \<Longrightarrow> wf_rel p"
  using iter_repo_files_subset [of fs] by (auto simp: wf_snapshot_def list_all_iff)

lemma wf_rel_plain: "wf_rel p \<Longrightarrow> p \<noteq> [] \<and> ''/'' \<notin> set p"
  using wf_part_not_slash by (auto simp: wf_rel_def list_all_iff)

lemma sorted_repo_files_rel:
  assumes "wf_snapshot fs"
  shows "sorted (map as_posix (sorted_repo_files fs))"
proof -
  obtain pre where pre: "\<forall>p. p \<noteq> [] \<and> ''/'' \<notin> set p \<longrightarrow>
      path_str (root_parts fs @ p) = pre @ join ''/'' p"
    using path_str_below_root by blast
  have key: "sorted (map (\<lambda>p. path_str (root_parts fs @ p)) (sorted_repo_files fs))"
    by (simp add: sorted_repo_files_def)
  have mem: "\<And>p. p \<in> set (sorted_repo_files fs) \<Longrightarrow> p \<noteq> [] \<and> ''/'' \<notin> set p"
    using wf_iter_repo_files [OF assms] wf_rel_plain by (simp add: sorted_repo_files_def)
  have "sorted (map (\<lambda>p. pre @ as_posix p) (sorted_repo_files fs))"
    using key mem pre
    by (simp add: sorted_key_cong [of "sorted_repo_files fs" "\<lambda>p. path_str (root_parts fs @ p)"
          "\<lambda>p. pre @ as_posix p"] as_posix_def)
  then show ?thesis by (simp add: sorted_common_prefix)
qed

lemma iter_repo_files_spelled_out:
  "iter_repo_files fs =
     filter (\<lambda>p. (\<exists>n. map_of (entries fs) p = Some n \<and> nkind n = Regular)
                \<and> (\<forall>part \<in> set (root_parts fs @ p). part \<notin>
                     {''.git'', ''node_modules'', ''dist'', ''build'', ''target'', ''vendor'',
                      ''.venv'', ''venv'', ''__pycache__'', ''.pytest_cache'', ''.mypy_cache'',
                      ''.next'', ''.turbo'', ''.parcel-cache'', ''.cache''}))
            (map fst (entries fs))"
  unfolding iter_repo_files_def
  by (rule filter_cong)
     (auto simp: ignored_def is_file_def node_at_def IGNORE_DIRS_def list_ex_iff
           split: option.splits)

text \<open>
  Claim C9. The files that \<open>build_tree\<close> lists are exactly the entries of the enumeration
  that are regular files and have no part, of the root or below it, in the ignore set
  (written out here), each as often as it is enumerated. For an entry cap of at least one
  the result is their relative paths, sorted by the string of the whole path, cut to the
  first \<open>max_entries\<close> and joined by newlines; the marker line follows exactly when there
  are at least \<open>max_entries\<close> such files. The path lines are as many as the cap at most,
  and on a well-formed tree they are in lexicographic order themselves.
\<close>

theorem build_tree_listing:
  assumes "1 \<le> max_entries"
  shows "build_tree fs max_entries =
           join [nl] (map as_posix (take (nat max_entries) (sorted_repo_files fs))
                      @ (if max_entries \<le> int (length (sorted_repo_files fs))
                         then [tree_marker] else []))
       \<and> length (take (nat max_entries) (sorted_repo_files fs)) \<le> nat max_entries
       \<and> mset (sorted_repo_files fs) =
           mset (filter (\<lambda>p. (\<exists>n. map_of (entries fs) p = Some n \<and> nkind n = Regular)
                \<and> (\<forall>part \<in> set (root_parts fs @ p). part \<notin>
                     {''.git'', ''node_modules'', ''dist'', ''build'', ''target'', ''vendor'',
                      ''.venv'', ''venv'', ''__pycache__'', ''.pytest_cache'', ''.mypy_cache'',
                      ''.next'', ''.turbo'', ''.parcel-cache'', ''.cache''}))
            (map fst (entries fs)))
       \<and> sorted (map (\<lambda>p. path_str (root_parts fs @ p)) (sorted_repo_files fs))
       \<and> (wf_snapshot fs \<longrightarrow>
            sorted (map as_posix (take (nat max_entries) (sorted_repo_files fs))))"
proof (intro conjI)
  show "build_tree fs max_entries =
           join [nl] (map as_posix (take (nat max_entries) (sorted_repo_files fs))
                      @ (if max_entries \<le> int (length (sorted_repo_files fs))
                         then [tree_marker] else []))"
    using tree_loop_closed_form [of 0 max_entries "sorted_repo_files fs" "[]"] assms
    by (simp add: build_tree_def tree_lines_def)
next
  show "length (take (nat max_entries) (sorted_repo_files fs)) \<le> nat max_entries" by simp
next
  have "mset (sorted_repo_files fs) = mset (iter_repo_files fs)"
    by (simp add: sorted_repo_files_def)
  then show "mset (sorted_repo_files fs) =
           mset (filter (\<lambda>p. (\<exists>n. map_of (entries fs) p = Some n \<and> nkind n = Regular)
                \<and> (\<forall>part \<in> set (root_parts fs @ p). part \<notin>
                     {''.git'', ''node_modules'', ''dist'', ''build'', ''target'', ''vendor'',
                      ''.venv'', ''venv'', ''__pycache__'', ''.pytest_cache'', ''.mypy_cache'',
                      ''.next'', ''.turbo'', ''.parcel-cache'', ''.cache''}))
            (map fst (entries fs)))"
    using iter_repo_files_spelled_out [of fs] by simp
next
  show "sorted (map (\<lambda>p. path_str (root_parts fs @ p)) (sorted_repo_files fs))"
    by (simp add: sorted_repo_files_def)
next
  show "wf_snapshot fs \<longrightarrow>
            sorted (map as_posix (take (nat max_entries) (sorted_repo_files fs)))"
  proof
    assume "wf_snapshot fs"
    then have "sorted (map as_posix (sorted_repo_files fs))" by (rule sorted_repo_files_rel)
    then have "sorted (take (nat max_entries) (map as_posix (sorted_repo_files fs)))"
      by (rule sorted_wrt_take)
    then show "sorted (map as_posix (take (nat max_entries) (sorted_repo_files fs)))"
      by (simp add: take_map)
  qed
qed

lemma listing_iter: "iter_repo_files listing_tree = [[''b.py''], [''a.py'']]"
  by (simp add: iter_repo_files_def listing_tree_def demo_root_def regular_def directory_def
        ignored_def IGNORE_DIRS_def is_file_def node_at_def)

lemma listing_sorted: "sorted_repo_files listing_tree = [[''a.py''], [''b.py'']]"
  unfolding sorted_repo_files_def listing_iter
  by (simp add: listing_tree_def demo_root_def path_str_def)

lemma listing_wf: "wf_snapshot listing_tree"
  by (simp add: wf_snapshot_def wf_rel_def wf_part_def listing_tree_def regular_def directory_def)

lemma listing_regular:
  "is_file listing_tree [''.git'', ''HEAD''] \<and> is_file listing_tree [''vendor'']
   \<and> \<not> is_file listing_tree [''docs'']"
  by (simp add: is_file_def node_at_def listing_tree_def regular_def directory_def)

theorem build_tree_listing_witness:
  "(1::int) \<le> 2
   \<and> wf_snapshot listing_tree
   \<and> is_file listing_tree [''.git'', ''HEAD''] \<and> is_file listing_tree [''vendor'']
   \<and> \<not> is_file listing_tree [''docs'']
   \<and> build_tree listing_tree 2 = ''a.py'' @ [nl] @ ''b.py'' @ [nl] @ tree_marker
   \<and> build_tree listing_tree 600 = ''a.py'' @ [nl] @ ''b.py''
   \<and> mset (sorted_repo_files listing_tree) = {#[''a.py''], [''b.py'']#}
   \<and> sorted [''a.py'', ''b.py'']"
proof -
  have h: "(1::int) \<le> 2" by simp
  have h': "(1::int) \<le> 600" by simp
  from build_tree_listing [OF h, of listing_tree] listing_wf
  have a: "build_tree listing_tree 2 =
           join [nl] (map as_posix (take (nat 2) (sorted_repo_files listing_tree))
                      @ (if 2 \<le> int (length (sorted_repo_files listing_tree))
                         then [tree_marker] else []))"
    and s: "sorted (map as_posix (take (nat 2) (sorted_repo_files listing_tree)))"
    by blast+
  from build_tree_listing [OF h', of listing_tree]
  have b: "build_tree listing_tree 600 =
           join [nl] (map as_posix (take (nat 600) (sorted_repo_files listing_tree))
                      @ (if 600 \<le> int (length (sorted_repo_files listing_tree))
                         then [tree_marker] else []))"
    by blast
  have a': "build_tree listing_tree 2 = ''a.py'' @ [nl] @ ''b.py'' @ [nl] @ tree_marker"
    unfolding a listing_sorted by (simp add: as_posix_def)
  have b': "build_tree listing_tree 600 = ''a.py'' @ [nl] @ ''b.py''"
    unfolding b listing_sorted by (simp add: as_posix_def)
  have s': "sorted [''a.py'', ''b.py'']"
    using s unfolding listing_sorted by (simp add: as_posix_def)
  have m: "mset (sorted_repo_files listing_tree) = {#[''a.py''], [''b.py'']#}"
    unfolding listing_sorted by simp
  from h listing_wf listing_regular a' b' m s' show ?thesis by blast
qed

subsection \<open>Deduplication of the selection\<close>

lemma those_map_Some:
  "those (map f xs) = Some ys \<Longrightarrow> ys = map (\<lambda>x. the (f x)) xs \<and> (\<forall>x \<in> set xs. f x \<noteq> None)"
  by (induction xs arbitrary: ys) (auto split: option.splits)

lemma add_loop_distinct:
  "distinct (map (resolve_or_self fs) out) \<Longrightarrow> set seen = resolve_or_self fs ` set out \<Longrightarrow>
     distinct (map (resolve_or_self fs) (add_loop fs out seen items))"
proof (induction items arbitrary: out seen)
  case Nil
  then show ?case by simp
next
  case (Cons it items)
  show ?case
  proof (cases "resolve_or_self fs it \<in> set seen")
    case True
    with Cons show ?thesis by (simp add: Let_def)
  next
    case False
    have d: "distinct (map (resolve_or_self fs) (out @ [it]))"
      using Cons.prems False by auto
    have s: "set (resolve_or_self fs it # seen) = resolve_or_self fs ` set (out @ [it])"
      using Cons.prems by auto
    from Cons.IH [OF d s] False show ?thesis by (simp add: Let_def)
  qed
qed

lemma add_unique_seen:
  "add_unique fs out items = Inr out' \<Longrightarrow>
     \<exists>seen. set seen = resolve_or_self fs ` set out \<and> out' = add_loop fs out seen items"
proof -
  assume a: "add_unique fs out items = Inr out'"
  then obtain seen where t: "those (map (resolve fs) out) = Some seen"
    and o: "out' = add_loop fs out seen items"
    by (auto simp: add_unique_def split: option.splits)
  from those_map_Some [OF t] have "seen = map (\<lambda>x. the (resolve fs x)) out"
    and "\<forall>x \<in> set out. resolve fs x \<noteq> None" by blast+
  then have "set seen = resolve_or_self fs ` set out"
    by (force simp: resolve_or_self_def split: option.splits)
  with o show ?thesis by blast
qed

lemma add_unique_distinct:
  "add_unique fs out items = Inr out' \<Longrightarrow> distinct (map (resolve_or_self fs) out) \<Longrightarrow>
     distinct (map (resolve_or_self fs) out')"
  using add_unique_seen add_loop_distinct by blast

lemma merge_tiers_distinct:
  assumes "merge_tiers fs pinned entry central candidates = Inr picked"
  shows "distinct (map (resolve_or_self fs) picked)"
proof -
  from assms obtain p1 p2 p3 where
    1: "add_unique fs [] pinned = Inr p1" and
    2: "add_unique fs p1 entry = Inr p2" and
    3: "add_unique fs p2 central = Inr p3" and
    4: "add_unique fs p3 candidates = Inr picked"
    by (auto simp: merge_tiers_def and_then_def split: sum.splits)
  have "distinct (map (resolve_or_self fs) p1)" using add_unique_distinct [OF 1] by simp
  then have "distinct (map (resolve_or_self fs) p2)" by (rule add_unique_distinct [OF 2])
  then have "distinct (map (resolve_or_self fs) p3)" by (rule add_unique_distinct [OF 3])
  then show ?thesis by (rule add_unique_distinct [OF 4])
qed

lemma py_take_is_take: "\<exists>k. py_take n xs = take k xs"
  by (auto simp: py_take_def)

lemma pick_is_cut:
  "pick_important_files rt fs max_files = Inr sel \<Longrightarrow>
     \<exists>inbound outbound picked.
        collect_import_centrality rt fs 250 = Inr (inbound, outbound)
      \<and> merge_tiers fs (pinned_tier fs) (entry_tier fs)
           (map snd (central_tier fs inbound)) (map snd (heuristic_tier fs outbound)) = Inr picked
      \<and> sel = py_take max_files picked"
  by (auto simp: pick_important_files_def split: sum.splits prod.splits)

text \<open>
  Claim C2. Whenever \<open>pick_important_files\<close> returns a selection, no two entries of it
  have the same resolved path (the path itself where \<open>resolve\<close> raises), whatever tiers
  a file qualifies for.
\<close>

theorem selection_has_no_duplicate:
  assumes "pick_important_files rt fs max_files = Inr sel"
  shows "distinct (map (resolve_or_self fs) sel)
       \<and> (\<forall>i j. i < j \<and> j < length sel \<longrightarrow>
             resolve_or_self fs (sel ! i) \<noteq> resolve_or_self fs (sel ! j))"
proof -
  from pick_is_cut [OF assms] obtain inbound outbound picked where
    m: "merge_tiers fs (pinned_tier fs) (entry_tier fs)
           (map snd (central_tier fs inbound)) (map snd (heuristic_tier fs outbound)) = Inr picked"
    and s: "sel = py_take max_files picked" by blast
  obtain k where k: "sel = take k picked" using py_take_is_take s by blast
  have "distinct (map (resolve_or_self fs) picked)" by (rule merge_tiers_distinct [OF m])
  then have "distinct (take k (map (resolve_or_self fs) picked))" by (rule distinct_take)
  then have d: "distinct (map (resolve_or_self fs) sel)" by (simp add: k take_map)
  have "\<forall>i j. i < j \<and> j < length sel \<longrightarrow>
             resolve_or_self fs (sel ! i) \<noteq> resolve_or_self fs (sel ! j)"
  proof (intro allI impI)
    fix i j assume ij: "i < j \<and> j < length sel"
    then have i: "i < length (map (resolve_or_self fs) sel)"
      and j: "j < length (map (resolve_or_self fs) sel)" and ne: "i \<noteq> j" by simp_all
    from nth_eq_iff_index_eq [OF d i j] ne
    have "map (resolve_or_self fs) sel ! i \<noteq> map (resolve_or_self fs) sel ! j" by blast
    with ij show "resolve_or_self fs (sel ! i) \<noteq> resolve_or_self fs (sel ! j)" by simp
  qed
  with d show ?thesis by blast
qed

theorem selection_has_no_duplicate_witness:
  "pick_important_files plain_runtime demo_tree 40
     = Inr [[''README.md''], [''main.py''], [''utils.py''], [''src'', ''routes.py'']]
   \<and> [''README.md''] \<in> set (pinned_tier demo_tree)
   \<and> [''README.md''] \<in> snd ` set (heuristic_tier demo_tree [(''main.py'', Suc 0)])
   \<and> distinct (map (resolve_or_self demo_tree)
        [[''README.md''], [''main.py''], [''utils.py''], [''src'', ''routes.py'']])"
proof -
  from selection_has_no_duplicate [OF demo_pick]
  have "distinct (map (resolve_or_self demo_tree)
        [[''README.md''], [''main.py''], [''utils.py''], [''src'', ''routes.py'']])" by blast
  moreover have "[''README.md''] \<in> set (pinned_tier demo_tree)" by (simp add: demo_pinned)
  moreover have "[''README.md''] \<in> snd ` set (heuristic_tier demo_tree [(''main.py'', Suc 0)])"
    unfolding demo_heuristic by (simp add: image_iff)
  ultimately show ?thesis using demo_pick by blast
qed


subsection \<open>The README in the pinned tier\<close>

lemma rs_node:
  "node_at readme_second_tree p =
     map_of [regular demo_root [''Dockerfile''] 20 ''FROM scratch'',
             regular demo_root [''README.md''] 5 ''hello''] p"
  by (simp add: node_at_def readme_second_tree_def)

lemma rs_iter: "iter_repo_files readme_second_tree = [[''Dockerfile''], [''README.md'']]"
  by (simp add: iter_repo_files_def readme_second_tree_def demo_root_def regular_def
        ignored_def IGNORE_DIRS_def is_file_def node_at_def)

lemma rs_pinned: "pinned_tier readme_second_tree = [[''Dockerfile''], [''README.md'']]"
  unfolding pinned_tier_def near_root_priority_def rs_iter
  by (simp add: readme_step_def count_char_def as_posix_def name_of_def PRIORITY_FILES_def
        path_exists_def rs_node regular_def)

lemma rs_entry: "entry_tier readme_second_tree = []"
  unfolding entry_tier_def rs_iter
  by (simp add: name_of_def ENTRY_FILENAMES_def lower_names)

lemma rs_collect: "collect_import_centrality rt readme_second_tree 250 = Inr ([], [])"
  unfolding collect_import_centrality_def scan_candidates_def rs_iter
  by (simp add: suffix_of_def name_of_def lower_names code_suffixes_def
        sorted_desc_def py_take_def)

lemma rs_heuristic:
  "heuristic_tier readme_second_tree [] = [(120, [''Dockerfile'']), (120, [''README.md''])]"
  unfolding heuristic_tier_def heuristic_candidates_def rs_iter
  by (simp add: heuristic_score_def Let_def as_posix_def name_of_def lower_names
        PRIORITY_FILES_def CODE_DIR_HINTS_def DEPRIORITIZE_DIRS_def ENTRY_FILENAMES_def
        intersects_def endswith_def stat_size_def rs_node regular_def
        count_of_def sorted_desc_def)

lemma rs_merge:
  "merge_tiers readme_second_tree [[''Dockerfile''], [''README.md'']] [] []
      [[''Dockerfile''], [''README.md'']]
     = Inr [[''Dockerfile''], [''README.md'']]"
  by (simp add: merge_tiers_def and_then_def add_unique_def resolve_def resolve_or_self_def
        rs_node regular_def Let_def)

text \<open>
  Claim C3 fails on the code. The README loop inserts \<open>root / rn\<close> at the front only
  when it is not in \<open>pinned\<close> yet, and a README that is a regular file at the root is there
  already, at the place the enumeration gave it. In the tree below the enumeration
  yields \<open>Dockerfile\<close> first: the README exists at the root and is second in the pinned
  tier and in the selection.
\<close>

theorem readme_not_first:
  "path_exists readme_second_tree [''README.md'']
   \<and> is_file readme_second_tree [''README.md'']
   \<and> pinned_tier readme_second_tree = [[''Dockerfile''], [''README.md'']]
   \<and> pick_important_files rt readme_second_tree 40 = Inr [[''Dockerfile''], [''README.md'']]"
proof -
  have "pick_important_files rt readme_second_tree 40 = Inr [[''Dockerfile''], [''README.md'']]"
    unfolding pick_important_files_def rs_collect
    by (simp add: rs_pinned rs_entry rs_heuristic rs_merge central_tier_def most_common_def
          most_common_all_def sorted_desc_def py_take_def)
  moreover have "path_exists readme_second_tree [''README.md'']
     \<and> is_file readme_second_tree [''README.md'']"
    by (simp add: path_exists_def is_file_def rs_node regular_def)
  ultimately show ?thesis using rs_pinned by blast
qed

subsection \<open>Import centrality\<close>

lemma count_of_counter_add:
  "count_of (counter_add c k n) k' = count_of c k' + (if k' = k then n else 0)"
  by (induction c) (auto simp: count_of_def)

lemma foldl_preserves:
  "P a \<Longrightarrow> (\<And>b x. P b \<Longrightarrow> P (f b x)) \<Longrightarrow> P (foldl f a xs)"
  by (induction xs arbitrary: a) auto

lemma distinct_set_add: "distinct s \<Longrightarrow> distinct (set_add s x)"
  by (simp add: set_add_def)

lemma distinct_add_targets: "distinct refs \<Longrightarrow> distinct (add_targets idx refs base)"
  unfolding add_targets_def by (rule foldl_preserves) (auto intro: distinct_set_add)

lemma distinct_py_refs: "distinct (py_refs idx body)"
  unfolding py_refs_def
  by (rule foldl_preserves) (auto simp: Let_def intro: distinct_add_targets)

lemma distinct_js_refs: "distinct (js_refs rt idx body)"
  unfolding js_refs_def Let_def
  by (rule foldl_preserves, rule foldl_preserves) (auto intro: distinct_add_targets)

lemma distinct_go_refs: "distinct (go_refs rt idx body)"
  unfolding go_refs_def
  by (rule foldl_preserves) (auto simp: Let_def intro: distinct_add_targets)

lemma distinct_source_refs: "distinct (source_refs rt idx src body)"
  by (simp add: source_refs_def Let_def distinct_py_refs distinct_js_refs distinct_go_refs)

lemma distinct_refs_of: "distinct (refs_of rt fs idx src)"
  by (simp add: refs_of_def Let_def distinct_source_refs)

lemma set_iter_perm: "set (set_iter rt s) = set s \<and> distinct (set_iter rt s) = distinct s"
  by (simp add: set_iter_def)

lemma inbound_loop_count:
  "distinct xs \<Longrightarrow>
     count_of (foldl (\<lambda>inbound tgt_rel.
                 if tgt_rel \<noteq> src_rel then counter_add inbound tgt_rel 1 else inbound)
               inb xs) k
       = count_of inb k + (if k \<in> set xs \<and> k \<noteq> src_rel then 1 else 0)"
proof (induction xs arbitrary: inb)
  case Nil
  then show ?case by simp
next
  case (Cons x xs)
  then show ?case by (auto simp: count_of_counter_add)
qed

lemma scan_source_inbound:
  "count_of (fst (scan_source rt fs idx io src)) k
     = count_of (fst io) k
       + (if k \<in> set (refs_of rt fs idx src) \<and> k \<noteq> as_posix src then 1 else 0)"
proof (cases "safe_read_text fs src 80000 = []")
  case True
  then show ?thesis by (simp add: scan_source_def refs_of_def)
next
  case False
  let ?refs = "source_refs rt idx src (safe_read_text fs src 80000)"
  have r: "refs_of rt fs idx src = ?refs" using False by (simp add: refs_of_def)
  show ?thesis
  proof (cases "?refs = []")
    case True
    with False r show ?thesis by (simp add: scan_source_def Let_def)
  next
    case nonempty: False
    have d: "distinct (set_iter rt ?refs)"
      using set_iter_perm [of rt ?refs] distinct_source_refs by simp
    have s: "set (set_iter rt ?refs) = set ?refs" using set_iter_perm by simp
    from False nonempty have "fst (scan_source rt fs idx io src)
        = foldl (\<lambda>inbound tgt_rel.
                   if tgt_rel \<noteq> as_posix src then counter_add inbound tgt_rel 1 else inbound)
            (fst io) (set_iter rt ?refs)"
      by (simp add: scan_source_def Let_def)
    with inbound_loop_count [OF d, of "as_posix src" "fst io" k] s r show ?thesis by simp
  qed
qed

lemma scan_source_outbound:
  "count_of (snd (scan_source rt fs idx io src)) k
     = count_of (snd io) k
       + (if k = as_posix src then length (refs_of rt fs idx src) else 0)"
proof (cases "safe_read_text fs src 80000 = []")
  case True
  then show ?thesis by (simp add: scan_source_def refs_of_def)
next
  case False
  then show ?thesis
    by (cases "source_refs rt idx src (safe_read_text fs src 80000) = []")
       (simp_all add: scan_source_def refs_of_def Let_def count_of_counter_add)
qed

lemma scan_all_inbound:
  "count_of (fst (foldl (scan_source rt fs idx) io cs)) k
     = count_of (fst io) k
       + length (filter (\<lambda>s. k \<in> set (refs_of rt fs idx s) \<and> k \<noteq> as_posix s) cs)"
  by (induction cs arbitrary: io) (simp_all add: scan_source_inbound)

lemma scan_all_outbound:
  "count_of (snd (foldl (scan_source rt fs idx) io cs)) k
     = count_of (snd io) k
       + sum_list (map (\<lambda>s. length (refs_of rt fs idx s)) (filter (\<lambda>s. as_posix s = k) cs))"
  by (induction cs arbitrary: io) (simp_all add: scan_source_outbound)

text \<open>
  Claim C4, as the code has it. For every key, the inbound count is the number of scanned
  sources, other than the file itself, whose set of resolved targets holds the key: one
  per referencing source, however many tokens resolve to it. The outbound count of a
  source is the size of its set of resolved targets, and the file itself is counted in
  it when its own stem is referenced (the sum runs over the candidates that share the
  relative path, a single one in a real tree).
\<close>

theorem centrality_counts:
  assumes "collect_import_centrality rt fs n = Inr (inbound, outbound)"
  shows "\<exists>cands. scan_candidates fs n = Inr cands
       \<and> (\<forall>k. count_of inbound k
               = length (filter (\<lambda>s. k \<in> set (refs_of rt fs (build_basename_index fs) s)
                                      \<and> k \<noteq> as_posix s) cands))
       \<and> (\<forall>k. count_of outbound k
               = sum_list (map (\<lambda>s. length (refs_of rt fs (build_basename_index fs) s))
                             (filter (\<lambda>s. as_posix s = k) cands)))
       \<and> (\<forall>s. distinct (refs_of rt fs (build_basename_index fs) s))"
proof -
  from assms obtain cands where c: "scan_candidates fs n = Inr cands"
    and r: "foldl (scan_source rt fs (build_basename_index fs)) ([], []) cands = (inbound, outbound)"
    by (auto simp: collect_import_centrality_def split: sum.splits)
  have i: "\<forall>k. count_of inbound k
               = length (filter (\<lambda>s. k \<in> set (refs_of rt fs (build_basename_index fs) s)
                                      \<and> k \<noteq> as_posix s) cands)"
    using scan_all_inbound [of rt fs "build_basename_index fs" "([], [])" cands] r
    by (simp add: count_of_def)
  have out: "\<forall>k. count_of outbound k
               = sum_list (map (\<lambda>s. length (refs_of rt fs (build_basename_index fs) s))
                             (filter (\<lambda>s. as_posix s = k) cands))"
    using scan_all_outbound [of rt fs "build_basename_index fs" "([], [])" cands] r
    by (simp add: count_of_def)
  from c i out distinct_refs_of show ?thesis by blast
qed

theorem centrality_counts_witness:
  "collect_import_centrality plain_runtime demo_tree 250
     = Inr ([(''utils.py'', Suc 0)], [(''main.py'', Suc 0)])
   \<and> (\<exists>cands. scan_candidates demo_tree 250 = Inr cands
        \<and> count_of [(''utils.py'', Suc 0)] ''utils.py''
            = length (filter (\<lambda>s. ''utils.py'' \<in> set (refs_of plain_runtime demo_tree
                                        (build_basename_index demo_tree) s)
                                   \<and> ''utils.py'' \<noteq> as_posix s) cands)
        \<and> count_of [(''main.py'', Suc 0)] ''main.py''
            = sum_list (map (\<lambda>s. length (refs_of plain_runtime demo_tree
                                        (build_basename_index demo_tree) s))
                          (filter (\<lambda>s. as_posix s = ''main.py'') cands)))"
  using centrality_counts [OF demo_collect] demo_collect by blast

lemma si_node:
  "node_at self_import_tree p = map_of [regular demo_root [''utils.py''] 12 ''import utils''] p"
  by (simp add: node_at_def self_import_tree_def)

lemma si_iter: "iter_repo_files self_import_tree = [[''utils.py'']]"
  by (simp add: iter_repo_files_def self_import_tree_def demo_root_def regular_def
        ignored_def IGNORE_DIRS_def is_file_def node_at_def)

lemma si_index: "build_basename_index self_import_tree = [(''utils'', [[''utils.py'']])]"
  unfolding build_basename_index_def si_iter
  by (simp add: stem_of_def name_of_def lower_names)

lemma si_candidates: "scan_candidates self_import_tree 250 = Inr [[''utils.py'']]"
  unfolding scan_candidates_def si_iter
  by (simp add: suffix_of_def name_of_def lower_names code_suffixes_def size_key_def
        path_exists_def stat_size_def si_node regular_def sorted_desc_def py_take_def)

lemma si_imports: "PY_IMPORT_finditer ''import utils'' = [''utils'']"
  by (simp add: PY_IMPORT_finditer_def py_import_match_def is_space_def is_modchar_def Let_def
        nl_def)

lemma si_refs:
  "refs_of plain_runtime self_import_tree [(''utils'', [[''utils.py'']])] [''utils.py'']
     = [''utils.py'']"
  by (simp add: refs_of_def safe_read_text_def read_text_def si_node regular_def
        source_refs_def suffix_of_def name_of_def lower_names py_refs_def si_imports
        strip_def is_space_def add_targets_def index_get_def set_add_def as_posix_def Let_def)

lemma si_scan:
  "scan_source plain_runtime self_import_tree [(''utils'', [[''utils.py'']])] ([], [])
      [''utils.py''] = ([], [(''utils.py'', Suc 0)])"
  by (simp add: scan_source_def safe_read_text_def read_text_def si_node regular_def
        source_refs_def suffix_of_def name_of_def lower_names py_refs_def si_imports
        strip_def is_space_def add_targets_def index_get_def set_add_def as_posix_def
        set_iter_def plain_runtime_def Let_def)

lemma si_collect:
  "collect_import_centrality plain_runtime self_import_tree 250
     = Inr ([], [(''utils.py'', Suc 0)])"
  unfolding collect_import_centrality_def si_candidates si_index
  by (simp add: si_scan)

text \<open>
  Claim C4, as the specification words it, fails: a file whose only import resolves to
  the file itself has no target other than itself, and its outbound count is one.
\<close>

theorem outbound_counts_the_file_itself:
  "collect_import_centrality plain_runtime self_import_tree 250
     = Inr ([], [(''utils.py'', Suc 0)])
   \<and> count_of [(''utils.py'', Suc 0)] (as_posix [''utils.py'']) = 1
   \<and> length (filter (\<lambda>t. t \<noteq> as_posix [''utils.py''])
        (refs_of plain_runtime self_import_tree (build_basename_index self_import_tree)
           [''utils.py''])) = 0"
  unfolding si_index
  by (simp add: si_collect si_refs count_of_def as_posix_def)

lemma index_get_append:
  "index_get (index_append idx stem p) base = index_get idx base @ (if stem = base then [p] else [])"
  by (induction idx) (auto simp: index_get_def)

lemma index_get_foldl:
  "index_get (foldl (\<lambda>idx p. index_append idx (f p) p) idx0 ps) base
     = index_get idx0 base @ filter (\<lambda>p. f p = base) ps"
  by (induction ps arbitrary: idx0) (simp_all add: index_get_append)

lemma index_get_build:
  "index_get (build_basename_index fs) base
     = filter (\<lambda>p. lower (stem_of p) = base) (iter_repo_files fs)"
  by (simp add: build_basename_index_def index_get_foldl) (simp add: index_get_def)
















subsection \<open>Monorepo hint\<close>

lemma split_on_plain: "c \<notin> set w \<Longrightarrow> split_on c w = [w]"
  by (induction w) auto

lemma split_on_first: "c \<notin> set w \<Longrightarrow> split_on c (w @ c # rest) = w # split_on c rest"
  by (induction w) auto

lemma split_join:
  "p \<noteq> [] \<Longrightarrow> \<forall>w \<in> set p. CHR ''/'' \<notin> set w \<Longrightarrow> split_on CHR ''/'' (join ''/'' p) = p"
proof (induction "''/'' :: string" p rule: join.induct)
  case 1
  then show ?case by simp
next
  case (2 x)
  then show ?case by (simp add: split_on_plain)
next
  case (3 x y ys)
  then have "split_on CHR ''/'' (join ''/'' (y # ys)) = y # ys" by simp
  moreover have "CHR ''/'' \<notin> set x" using 3 by simp
  ultimately show ?case by (simp add: split_on_first)
qed

lemma parse_as_posix: "wf_rel p \<or> p = [] \<Longrightarrow> parse_posix (as_posix p) = p"
proof (cases "p = []")
  case True
  then show ?thesis by (simp add: parse_posix_def as_posix_def)
next
  case False
  assume "wf_rel p \<or> p = []"
  with False have wf: "wf_rel p" by simp
  then have "\<forall>w \<in> set p. CHR ''/'' \<notin> set w" and keep: "\<forall>w \<in> set p. w \<noteq> [] \<and> w \<noteq> ''.''"
    by (auto simp: wf_rel_def wf_part_def list_all_iff)
  with False have "split_on CHR ''/'' (join ''/'' p) = p" by (simp add: split_join)
  with False keep show ?thesis by (simp add: parse_posix_def as_posix_def filter_id_conv)
qed

lemma wf_butlast: "wf_rel p \<Longrightarrow> wf_rel (butlast p) \<or> butlast p = []"
  by (auto simp: wf_rel_def list_all_iff dest: in_set_butlastD)

lemma as_posix_inj:
  "wf_rel p \<or> p = [] \<Longrightarrow> wf_rel q \<or> q = [] \<Longrightarrow> as_posix p = as_posix q \<Longrightarrow> p = q"
  by (metis parse_as_posix)

lemma parent_of_posix: "wf_rel p \<Longrightarrow> parent_posix (as_posix p) = as_posix (butlast p)"
  by (simp add: parent_posix_def parse_as_posix)

lemma iter_files_subset: "set (iter_files fs) \<subseteq> fst ` set (entries fs)"
  by (auto simp: iter_files_def)

lemma wf_iter_files: "wf_snapshot fs \<Longrightarrow> p \<in> set (iter_files fs) \<Longrightarrow> wf_rel p"
  using iter_files_subset [of fs] by (auto simp: wf_snapshot_def list_all_iff)

lemma monorepo_hint_card:
  assumes "wf_snapshot fs"
  shows "monorepo_hint_of fs
           = (2 \<le> card (butlast ` {p \<in> set (iter_files fs). name_of p \<in> set manifest_names}))"
proof -
  let ?M = "filter (\<lambda>p. name_of p \<in> set manifest_names) (iter_files fs)"
  have wf: "\<And>p. p \<in> set ?M \<Longrightarrow> wf_rel p" using wf_iter_files [OF assms] by simp
  have "map parent_posix (manifest_paths_of fs) = map (\<lambda>p. as_posix (butlast p)) ?M"
    using wf by (simp add: manifest_paths_of_def parent_of_posix)
  then have "length (remdups (map parent_posix (manifest_paths_of fs)))
               = card (as_posix ` butlast ` set ?M)"
    by (simp add: length_remdups_card_conv image_image)
  also have "\<dots> = card (butlast ` set ?M)"
  proof (rule card_image)
    show "inj_on as_posix (butlast ` set ?M)"
    proof (rule inj_onI)
      fix a b assume "a \<in> butlast ` set ?M" and "b \<in> butlast ` set ?M"
        and eq: "as_posix a = as_posix b"
      then have "wf_rel a \<or> a = []" and "wf_rel b \<or> b = []"
        using wf wf_butlast by blast+
      with eq show "a = b" using as_posix_inj by blast
    qed
  qed
  finally show ?thesis by (simp add: monorepo_hint_of_def)
qed

text \<open>
  Claim C7. On a well-formed tree \<open>monorepo_hint\<close> is true iff the manifest files that
  \<open>_iter_files\<close> yields have at least two distinct parent directories; it is false when a
  single root-level manifest is the only one.
\<close>

theorem monorepo_hint_iff:
  assumes "wf_snapshot fs"
  shows "monorepo_hint (build_signals rt fs)
           = (2 \<le> card (butlast ` {p \<in> set (iter_files fs). name_of p \<in> set manifest_names}))
       \<and> (\<forall>m. filter (\<lambda>p. name_of p \<in> set manifest_names) (iter_files fs) = [[m]]
              \<longrightarrow> \<not> monorepo_hint (build_signals rt fs))"
proof -
  have h: "monorepo_hint (build_signals rt fs) = monorepo_hint_of fs"
    by (simp add: build_signals_def Let_def)
  have "\<forall>m. filter (\<lambda>p. name_of p \<in> set manifest_names) (iter_files fs) = [[m]]
              \<longrightarrow> \<not> monorepo_hint_of fs"
    by (simp add: monorepo_hint_of_def manifest_paths_of_def)
  with h monorepo_hint_card [OF assms] show ?thesis by simp
qed

lemma mono_wf: "wf_snapshot mono_tree"
  by (simp add: wf_snapshot_def wf_rel_def wf_part_def mono_tree_def regular_def directory_def)

lemma mono_iter: "iter_files mono_tree = [[''package.json''], [''svc'', ''go.mod'']]"
  by (simp add: iter_files_def mono_tree_def demo_root_def regular_def directory_def
        intersects_def signals_IGNORE_DIRS_def is_file_def node_at_def)

lemma mono_hint: "monorepo_hint_of mono_tree"
  unfolding monorepo_hint_of_def manifest_paths_of_def mono_iter
  by (simp add: name_of_def manifest_names_def as_posix_def parent_posix_def parse_posix_def)

theorem monorepo_hint_iff_witness:
  "wf_snapshot mono_tree
   \<and> monorepo_hint (build_signals plain_runtime mono_tree)
   \<and> 2 \<le> card (butlast ` {p \<in> set (iter_files mono_tree). name_of p \<in> set manifest_names})"
proof -
  have "monorepo_hint (build_signals plain_runtime mono_tree)"
    using mono_hint by (simp add: build_signals_def Let_def)
  with monorepo_hint_iff [OF mono_wf, of plain_runtime] mono_wf show ?thesis by simp
qed

subsection \<open>Files above the size ceiling\<close>

lemma heuristic_score_Some:
  "heuristic_score fs outbound p = Some score \<Longrightarrow>
     \<exists>sz. stat_size fs p = Some sz \<and> sz \<le> 350000"
  by (auto simp: heuristic_score_def Let_def split: option.splits if_splits)

lemma heuristic_candidates_size:
  assumes "(score, p) \<in> set (heuristic_candidates fs outbound)"
  shows "\<exists>sz. stat_size fs p = Some sz \<and> sz \<le> 350000"
proof -
  from assms have "heuristic_score fs outbound p = Some score"
    by (auto simp: heuristic_candidates_def split: option.splits if_splits)
  then show ?thesis by (rule heuristic_score_Some)
qed

lemma heuristic_tier_set:
  "set (heuristic_tier fs outbound) = set (heuristic_candidates fs outbound)"
  by (simp add: heuristic_tier_def sorted_desc_def)

lemma add_loop_prefix:
  "\<exists>ys. add_loop fs out seen items = out @ ys \<and> length ys \<le> length items"
proof (induction items arbitrary: out seen)
  case Nil
  show ?case by simp
next
  case (Cons it items)
  show ?case
  proof (cases "resolve_or_self fs it \<in> set seen")
    case True
    from Cons.IH [of out seen] obtain ys where
      "add_loop fs out seen items = out @ ys \<and> length ys \<le> length items" by blast
    with True show ?thesis by (auto simp: Let_def)
  next
    case False
    from Cons.IH [of "out @ [it]" "resolve_or_self fs it # seen"] obtain ys where
      "add_loop fs (out @ [it]) (resolve_or_self fs it # seen) items = (out @ [it]) @ ys
         \<and> length ys \<le> length items" by blast
    with False have "add_loop fs out seen (it # items) = out @ (it # ys)
        \<and> length (it # ys) \<le> length (it # items)" by (simp add: Let_def)
    then show ?thesis by blast
  qed
qed

lemma add_loop_keeps: "set out \<subseteq> set (add_loop fs out seen items)"
  using add_loop_prefix [of fs out seen items] by auto

lemma add_loop_covers:
  "set seen = resolve_or_self fs ` set out \<Longrightarrow> it \<in> set items \<Longrightarrow>
     resolve_or_self fs it \<in> resolve_or_self fs ` set (add_loop fs out seen items)"
proof (induction items arbitrary: out seen)
  case Nil
  then show ?case by simp
next
  case (Cons a items)
  show ?case
  proof (cases "resolve_or_self fs a \<in> set seen")
    case True
    show ?thesis
    proof (cases "it = a")
      case same: True
      from True Cons.prems(1) have "resolve_or_self fs a \<in> resolve_or_self fs ` set out" by simp
      with add_loop_keeps [of out fs seen "a # items"] same show ?thesis by blast
    next
      case False
      with Cons.prems have "it \<in> set items" by simp
      from Cons.IH [OF Cons.prems(1) this] True show ?thesis by (simp add: Let_def)
    qed
  next
    case False
    have inv: "set (resolve_or_self fs a # seen) = resolve_or_self fs ` set (out @ [a])"
      using Cons.prems(1) by auto
    show ?thesis
    proof (cases "it = a")
      case True
      have "a \<in> set (add_loop fs (out @ [a]) (resolve_or_self fs a # seen) items)"
        using add_loop_keeps [of "out @ [a]" fs "resolve_or_self fs a # seen" items] by auto
      with False True show ?thesis by (simp add: Let_def)
    next
      case other: False
      with Cons.prems have "it \<in> set items" by simp
      from Cons.IH [OF inv this] False show ?thesis by (simp add: Let_def)
    qed
  qed
qed

lemma add_unique_result:
  assumes "add_unique fs out items = Inr out'"
  shows "(\<exists>ys. out' = out @ ys \<and> length ys \<le> length items)
       \<and> (\<forall>it \<in> set items. resolve_or_self fs it \<in> resolve_or_self fs ` set out')"
proof -
  from assms obtain seen where t: "those (map (resolve fs) out) = Some seen"
    and o: "out' = add_loop fs out seen items"
    by (auto simp: add_unique_def split: option.splits)
  from those_map_Some [OF t] have "seen = map (\<lambda>x. the (resolve fs x)) out"
    and "\<forall>x \<in> set out. resolve fs x \<noteq> None" by blast+
  then have s: "set seen = resolve_or_self fs ` set out"
    by (force simp: resolve_or_self_def split: option.splits)
  from add_loop_prefix [of fs out seen items] o add_loop_covers [OF s] show ?thesis by blast
qed

lemma merge_tiers_front:
  assumes "merge_tiers fs pinned entry central candidates = Inr picked"
  shows "\<exists>front rest. picked = front @ rest
       \<and> length front \<le> length pinned + length entry
       \<and> (\<forall>it \<in> set pinned \<union> set entry.
             resolve_or_self fs it \<in> resolve_or_self fs ` set front)"
proof -
  from assms obtain p1 p2 p3 where
    1: "add_unique fs [] pinned = Inr p1" and
    2: "add_unique fs p1 entry = Inr p2" and
    3: "add_unique fs p2 central = Inr p3" and
    4: "add_unique fs p3 candidates = Inr picked"
    by (auto simp: merge_tiers_def and_then_def split: sum.splits)
  from add_unique_result [OF 1] have l1: "length p1 \<le> length pinned"
    and c1: "\<forall>it \<in> set pinned. resolve_or_self fs it \<in> resolve_or_self fs ` set p1" by auto
  from add_unique_result [OF 2] obtain y2 where p2: "p2 = p1 @ y2" and l2: "length y2 \<le> length entry"
    and c2: "\<forall>it \<in> set entry. resolve_or_self fs it \<in> resolve_or_self fs ` set p2" by blast
  from add_unique_result [OF 3] obtain y3 where p3: "p3 = p2 @ y3" by blast
  from add_unique_result [OF 4] obtain y4 where p4: "picked = p3 @ y4" by blast
  have a: "picked = p2 @ (y3 @ y4)" using p3 p4 by simp
  have b: "length p2 \<le> length pinned + length entry" using p2 l1 l2 by simp
  have c: "\<forall>it \<in> set pinned \<union> set entry.
             resolve_or_self fs it \<in> resolve_or_self fs ` set p2"
    using c1 c2 p2 by auto
  from a b c show ?thesis by blast
qed

lemma py_take_front:
  "int (length front) \<le> m \<Longrightarrow> set front \<subseteq> set (py_take m (front @ rest))"
  by (auto simp: py_take_def)

text \<open>
  Claim C6, as the code has it. A file of the heuristic tier has a size that \<open>stat\<close>
  reports and that is not above 350000: a larger file gets no heuristic score at all.
  A file of the pinned or of the entry tier, whatever its size, is in the selection
  (under its own path or under another path that resolves to the same file) whenever the
  selection is returned and the two tiers together hold at most \<open>max_files\<close> paths.
\<close>

theorem oversized_files:
  "(\<forall>outbound score p. (score, p) \<in> set (heuristic_tier fs outbound) \<longrightarrow>
        (\<exists>sz. stat_size fs p = Some sz \<and> sz \<le> 350000))
   \<and> (\<forall>sel p. pick_important_files rt fs max_files = Inr sel
          \<and> p \<in> set (pinned_tier fs) \<union> set (entry_tier fs)
          \<and> int (length (pinned_tier fs) + length (entry_tier fs)) \<le> max_files \<longrightarrow>
        (\<exists>q \<in> set sel. resolve_or_self fs q = resolve_or_self fs p))"
proof (intro conjI allI impI)
  fix outbound score p
  assume "(score, p) \<in> set (heuristic_tier fs outbound)"
  then show "\<exists>sz. stat_size fs p = Some sz \<and> sz \<le> 350000"
    using heuristic_candidates_size by (simp add: heuristic_tier_set)
next
  fix sel p
  assume a: "pick_important_files rt fs max_files = Inr sel
          \<and> p \<in> set (pinned_tier fs) \<union> set (entry_tier fs)
          \<and> int (length (pinned_tier fs) + length (entry_tier fs)) \<le> max_files"
  from pick_is_cut [of rt fs max_files sel] a obtain inbound outbound picked where
    m: "merge_tiers fs (pinned_tier fs) (entry_tier fs)
           (map snd (central_tier fs inbound)) (map snd (heuristic_tier fs outbound)) = Inr picked"
    and s: "sel = py_take max_files picked" by blast
  from merge_tiers_front [OF m] obtain front rest where
    f: "picked = front @ rest"
    and l: "length front \<le> length (pinned_tier fs) + length (entry_tier fs)"
    and c: "\<forall>it \<in> set (pinned_tier fs) \<union> set (entry_tier fs).
             resolve_or_self fs it \<in> resolve_or_self fs ` set front" by blast
  from l a have "int (length front) \<le> max_files" by simp
  then have "set front \<subseteq> set sel" using py_take_front s f by simp
  moreover from c a have "resolve_or_self fs p \<in> resolve_or_self fs ` set front" by blast
  ultimately show "\<exists>q \<in> set sel. resolve_or_self fs q = resolve_or_self fs p" by auto
qed

lemma be_node:
  "node_at big_entry_tree p =
     map_of [regular demo_root [''README.md''] 5 ''hello'',
             regular demo_root [''main.py''] 400000 ''pass''] p"
  by (simp add: node_at_def big_entry_tree_def)

lemma be_iter: "iter_repo_files big_entry_tree = [[''README.md''], [''main.py'']]"
  by (simp add: iter_repo_files_def big_entry_tree_def demo_root_def regular_def
        ignored_def IGNORE_DIRS_def is_file_def node_at_def)

lemma be_pinned: "pinned_tier big_entry_tree = [[''README.md'']]"
  unfolding pinned_tier_def near_root_priority_def be_iter
  by (simp add: readme_step_def count_char_def as_posix_def name_of_def PRIORITY_FILES_def
        path_exists_def be_node regular_def)

lemma be_entry: "entry_tier big_entry_tree = [[''main.py'']]"
  unfolding entry_tier_def be_iter
  by (simp add: name_of_def ENTRY_FILENAMES_def lower_names)

lemma be_no_imports: "PY_IMPORT_finditer ''pass'' = []"
  by (simp add: PY_IMPORT_finditer_def py_import_match_def is_space_def is_modchar_def Let_def nl_def)

lemma be_collect: "collect_import_centrality rt big_entry_tree 250 = Inr ([], [])"
  unfolding collect_import_centrality_def scan_candidates_def be_iter
  by (simp add: suffix_of_def name_of_def lower_names code_suffixes_def size_key_def
        path_exists_def stat_size_def be_node regular_def sorted_desc_def py_take_def
        scan_source_def safe_read_text_def read_text_def source_refs_def py_refs_def
        be_no_imports Let_def)

lemma be_heuristic: "heuristic_tier big_entry_tree [] = [(120, [''README.md''])]"
  unfolding heuristic_tier_def heuristic_candidates_def be_iter
  by (simp add: heuristic_score_def Let_def as_posix_def name_of_def lower_names
        PRIORITY_FILES_def CODE_DIR_HINTS_def DEPRIORITIZE_DIRS_def ENTRY_FILENAMES_def
        intersects_def endswith_def stat_size_def be_node regular_def
        count_of_def sorted_desc_def)

lemma be_merge:
  "merge_tiers big_entry_tree [[''README.md'']] [[''main.py'']] [] [[''README.md'']]
     = Inr [[''README.md''], [''main.py'']]"
  by (simp add: merge_tiers_def and_then_def add_unique_def resolve_def resolve_or_self_def
        be_node regular_def Let_def)

lemma be_pick:
  "pick_important_files rt big_entry_tree 40 = Inr [[''README.md''], [''main.py'']]"
  unfolding pick_important_files_def be_collect
  by (simp add: be_pinned be_entry be_heuristic be_merge central_tier_def most_common_def
        most_common_all_def sorted_desc_def py_take_def)

theorem oversized_files_witness:
  "stat_size big_entry_tree [''main.py''] = Some 400000
   \<and> [''main.py''] \<in> set (entry_tier big_entry_tree)
   \<and> [''main.py''] \<notin> snd ` set (heuristic_tier big_entry_tree [])
   \<and> pick_important_files plain_runtime big_entry_tree 40 = Inr [[''README.md''], [''main.py'']]
   \<and> (\<exists>q \<in> set [[''README.md''], [''main.py'']].
         resolve_or_self big_entry_tree q = resolve_or_self big_entry_tree [''main.py''])"
proof -
  have s: "stat_size big_entry_tree [''main.py''] = Some 400000"
    by (simp add: stat_size_def be_node regular_def)
  have e: "[''main.py''] \<in> set (entry_tier big_entry_tree)" by (simp add: be_entry)
  have h: "[''main.py''] \<notin> snd ` set (heuristic_tier big_entry_tree [])"
    by (simp add: be_heuristic)
  have l: "int (length (pinned_tier big_entry_tree) + length (entry_tier big_entry_tree)) \<le> 40"
    by (simp add: be_pinned be_entry)
  from oversized_files [of big_entry_tree plain_runtime 40] be_pick [of plain_runtime] e l
  have "\<exists>q \<in> set [[''README.md''], [''main.py'']].
         resolve_or_self big_entry_tree q = resolve_or_self big_entry_tree [''main.py'']"
    by blast
  with s e h be_pick show ?thesis by blast
qed

lemma crowded_lookup_dir:
  "d \<in> set ds \<Longrightarrow>
     map_of (concat (map (\<lambda>d. [directory demo_root [d],
                            regular demo_root [d, ''go.mod''] 9 ''module m'',
                            regular demo_root [d, ''go.sum''] 0 []]) ds) @ rest) [d]
       = Some (snd (directory demo_root [d]))"
  by (induction ds) (auto simp: regular_def directory_def)

lemma crowded_lookup_mod:
  "d \<in> set ds \<Longrightarrow>
     map_of (concat (map (\<lambda>d. [directory demo_root [d],
                            regular demo_root [d, ''go.mod''] 9 ''module m'',
                            regular demo_root [d, ''go.sum''] 0 []]) ds) @ rest) [d, ''go.mod'']
       = Some (snd (regular demo_root [d, ''go.mod''] 9 ''module m''))"
  by (induction ds) (auto simp: regular_def directory_def)

lemma crowded_lookup_sum:
  "d \<in> set ds \<Longrightarrow>
     map_of (concat (map (\<lambda>d. [directory demo_root [d],
                            regular demo_root [d, ''go.mod''] 9 ''module m'',
                            regular demo_root [d, ''go.sum''] 0 []]) ds) @ rest) [d, ''go.sum'']
       = Some (snd (regular demo_root [d, ''go.sum''] 0 []))"
  by (induction ds) (auto simp: regular_def directory_def)

lemma crowded_lookup_top:
  "x \<notin> set ds \<Longrightarrow>
     map_of (concat (map (\<lambda>d. [directory demo_root [d],
                            regular demo_root [d, ''go.mod''] 9 ''module m'',
                            regular demo_root [d, ''go.sum''] 0 []]) ds) @ rest) [x]
       = map_of rest [x]"
  by (induction ds) (auto simp: regular_def directory_def)

lemma cr_root: "root_parts crowded_tree = demo_root"
  by (simp add: crowded_tree_def)

lemma cr_keys:
  "map fst (entries crowded_tree) =
     concat (map (\<lambda>d. [[d], [d, ''go.mod''], [d, ''go.sum'']]) crowded_dirs) @ [[''main.py'']]"
  by (simp add: crowded_tree_def regular_def directory_def map_concat comp_def)

lemma cr_node_dir:
  "d \<in> set crowded_dirs \<Longrightarrow> node_at crowded_tree [d] = Some (snd (directory demo_root [d]))"
  by (simp add: node_at_def crowded_tree_def crowded_lookup_dir del: map_of_append)

lemma cr_node_mod:
  "d \<in> set crowded_dirs \<Longrightarrow>
     node_at crowded_tree [d, ''go.mod''] = Some (snd (regular demo_root [d, ''go.mod''] 9 ''module m''))"
  by (simp add: node_at_def crowded_tree_def crowded_lookup_mod del: map_of_append)

lemma cr_node_sum:
  "d \<in> set crowded_dirs \<Longrightarrow>
     node_at crowded_tree [d, ''go.sum''] = Some (snd (regular demo_root [d, ''go.sum''] 0 []))"
  by (simp add: node_at_def crowded_tree_def crowded_lookup_sum del: map_of_append)

lemma cr_node_top:
  "x \<notin> set crowded_dirs \<Longrightarrow>
     node_at crowded_tree [x] =
       (if x = ''main.py'' then Some (snd (regular demo_root [''main.py''] 400000 ''pass'')) else None)"
proof -
  assume "x \<notin> set crowded_dirs"
  then have "node_at crowded_tree [x] = map_of [regular demo_root [''main.py''] 400000 ''pass''] [x]"
    by (simp add: node_at_def crowded_tree_def crowded_lookup_top del: map_of_append)
  then show ?thesis by (simp add: regular_def)
qed

lemma cr_iter: "iter_repo_files crowded_tree = crowded_files @ [[''main.py'']]"
  unfolding iter_repo_files_def cr_keys
  by (simp add: crowded_dirs_def crowded_files_def ignored_def cr_root demo_root_def
        IGNORE_DIRS_def is_file_def cr_node_dir cr_node_mod cr_node_sum cr_node_top
        regular_def directory_def)

lemma cr_pinned: "pinned_tier crowded_tree = crowded_files"
  unfolding pinned_tier_def near_root_priority_def cr_iter
  by (simp add: crowded_files_def crowded_dirs_def readme_step_def count_char_def as_posix_def
        name_of_def PRIORITY_FILES_def path_exists_def cr_node_top)

lemma cr_lower: "lower ''main.py'' = ''main.py'' \<and> lower ''go.mod'' = ''go.mod''
   \<and> lower ''go.sum'' = ''go.sum'' \<and> lower ''.mod'' = ''.mod'' \<and> lower ''.sum'' = ''.sum''
   \<and> lower ''.py'' = ''.py''"
  by code_simp

lemma cr_entry: "entry_tier crowded_tree = [[''main.py'']]"
  unfolding entry_tier_def cr_iter
  by (simp add: crowded_files_def crowded_dirs_def name_of_def ENTRY_FILENAMES_def cr_lower)

lemma cr_candidates: "scan_candidates crowded_tree 250 = Inr [[''main.py'']]"
  unfolding scan_candidates_def cr_iter
  by (simp add: crowded_files_def crowded_dirs_def suffix_of_def name_of_def cr_lower
        code_suffixes_def size_key_def path_exists_def stat_size_def cr_node_top
        regular_def sorted_desc_def py_take_def)

lemma cr_collect: "collect_import_centrality rt crowded_tree 250 = Inr ([], [])"
  unfolding collect_import_centrality_def cr_candidates
  by (simp add: scan_source_def safe_read_text_def read_text_def cr_node_top crowded_dirs_def
        regular_def source_refs_def suffix_of_def name_of_def cr_lower py_refs_def
        demo_no_imports Let_def)

lemma those_total: "(\<forall>x \<in> set xs. f x \<noteq> None) \<Longrightarrow> those (map f xs) \<noteq> None"
  by (induction xs) (auto split: option.splits)

lemma add_unique_total:
  "(\<forall>p. resolve fs p \<noteq> None) \<Longrightarrow> \<exists>r. add_unique fs out items = Inr r"
  using those_total [of out "resolve fs"] by (auto simp: add_unique_def split: option.splits)

lemma merge_tiers_total:
  assumes "\<forall>p. resolve fs p \<noteq> None"
  shows "\<exists>picked. merge_tiers fs pinned entry central candidates = Inr picked"
proof -
  from add_unique_total [OF assms] obtain p1 where 1: "add_unique fs [] pinned = Inr p1" by blast
  from add_unique_total [OF assms] obtain p2 where 2: "add_unique fs p1 entry = Inr p2" by blast
  from add_unique_total [OF assms] obtain p3 where 3: "add_unique fs p2 central = Inr p3" by blast
  from add_unique_total [OF assms] obtain p4 where 4: "add_unique fs p3 candidates = Inr p4" by blast
  from 1 2 3 4 show ?thesis by (simp add: merge_tiers_def and_then_def)
qed

lemma merge_tiers_first:
  assumes "merge_tiers fs pinned entry central candidates = Inr picked"
  shows "\<exists>p1 rest. add_unique fs [] pinned = Inr p1 \<and> picked = p1 @ rest"
proof -
  from assms obtain p1 p2 p3 where
    1: "add_unique fs [] pinned = Inr p1" and
    2: "add_unique fs p1 entry = Inr p2" and
    3: "add_unique fs p2 central = Inr p3" and
    4: "add_unique fs p3 candidates = Inr picked"
    by (auto simp: merge_tiers_def and_then_def split: sum.splits)
  from add_unique_result [OF 2] obtain y2 where "p2 = p1 @ y2" by blast
  moreover from add_unique_result [OF 3] obtain y3 where "p3 = p2 @ y3" by blast
  moreover from add_unique_result [OF 4] obtain y4 where "picked = p3 @ y4" by blast
  ultimately have "picked = p1 @ (y2 @ y3 @ y4)" by simp
  with 1 show ?thesis by blast
qed

lemma add_loop_fresh:
  "distinct (map (resolve_or_self fs) items) \<Longrightarrow>
   set (map (resolve_or_self fs) items) \<inter> set seen = {} \<Longrightarrow>
     add_loop fs out seen items = out @ items"
proof (induction items arbitrary: out seen)
  case Nil
  show ?case by simp
next
  case (Cons it items)
  have d: "distinct (map (resolve_or_self fs) items)" using Cons.prems(1) by simp
  have i: "set (map (resolve_or_self fs) items) \<inter> set (resolve_or_self fs it # seen) = {}"
    using Cons.prems by auto
  have n: "resolve_or_self fs it \<notin> set seen" using Cons.prems(2) by auto
  from Cons.IH [OF d i, of "out @ [it]"] n show ?case by (simp add: Let_def)
qed

lemma cr_resolve_total: "resolve crowded_tree p \<noteq> None"
proof (cases "map_of (entries crowded_tree) p")
  case None
  then show ?thesis by (simp add: resolve_def node_at_def)
next
  case (Some n)
  then have "(p, n) \<in> set (entries crowded_tree)" by (rule map_of_SomeD)
  then have "resolved n \<noteq> None"
    by (auto simp: crowded_tree_def regular_def directory_def)
  with Some show ?thesis by (simp add: resolve_def node_at_def)
qed

lemma cr_resolved:
  "map (resolve_or_self crowded_tree) crowded_files = map ((@) demo_root) crowded_files"
  by (simp add: crowded_files_def crowded_dirs_def resolve_or_self_def resolve_def
        cr_node_mod cr_node_sum regular_def)

lemma cr_distinct: "distinct crowded_files"
  by (simp add: crowded_files_def crowded_dirs_def)

lemma cr_length: "length crowded_files = 40"
  by (simp add: crowded_files_def crowded_dirs_def)

lemma cr_first: "add_unique crowded_tree [] crowded_files = Inr crowded_files"
proof -
  have "distinct (map (resolve_or_self crowded_tree) crowded_files)"
    unfolding cr_resolved using cr_distinct by (simp add: distinct_map inj_on_def)
  then have "add_loop crowded_tree [] [] crowded_files = [] @ crowded_files"
    by (rule add_loop_fresh) simp
  then show ?thesis by (simp add: add_unique_def)
qed

lemma cr_pick: "pick_important_files rt crowded_tree 40 = Inr crowded_files"
proof -
  from merge_tiers_total cr_resolve_total obtain picked where
    m: "merge_tiers crowded_tree (pinned_tier crowded_tree) (entry_tier crowded_tree)
          (map snd (central_tier crowded_tree []))
          (map snd (heuristic_tier crowded_tree [])) = Inr picked" by blast
  from merge_tiers_first [OF m] cr_first obtain rest where p: "picked = crowded_files @ rest"
    by (auto simp: cr_pinned)
  have "py_take 40 picked = crowded_files" using p cr_length by (simp add: py_take_def)
  with m show ?thesis by (simp add: pick_important_files_def cr_collect)
qed

text \<open>
  Claim C6, as the specification words it, fails: with forty priority files at depth one
  the pinned tier alone fills the selection, and an entry file above the size ceiling,
  which no tier but the entry tier holds, is cut off by the limit of forty.
\<close>

theorem oversized_entry_file_cut_off:
  "stat_size crowded_tree [''main.py''] = Some 400000
   \<and> [''main.py''] \<in> set (entry_tier crowded_tree)
   \<and> pick_important_files plain_runtime crowded_tree 40 = Inr crowded_files
   \<and> length crowded_files = 40
   \<and> [''main.py''] \<notin> set crowded_files"
proof -
  have s: "stat_size crowded_tree [''main.py''] = Some 400000"
    by (simp add: stat_size_def cr_node_top crowded_dirs_def regular_def)
  have e: "[''main.py''] \<in> set (entry_tier crowded_tree)" by (simp add: cr_entry)
  have n: "[''main.py''] \<notin> set crowded_files" by (simp add: crowded_files_def crowded_dirs_def)
  from s e cr_pick cr_length n show ?thesis by blast
qed

subsection \<open>Two runs on one tree\<close>




































subsection \<open>A file named like an ignored directory\<close>

lemma ignore_names_plain:
  "x \<in> set IGNORE_DIRS \<Longrightarrow>
     x \<notin> set ENTRYPOINT_FILES_NEAR_ROOT \<and> x \<notin> set ENTRYPOINT_FILES_ANYWHERE
     \<and> x \<notin> set manifest_names \<and> x \<noteq> [] \<and> x \<noteq> tree_marker
     \<and> x \<noteq> ''README.md'' \<and> x \<noteq> ''README.rst'' \<and> x \<noteq> ''README.txt''"
  by (auto simp: IGNORE_DIRS_def ENTRYPOINT_FILES_NEAR_ROOT_def ENTRYPOINT_FILES_ANYWHERE_def
        manifest_names_def tree_marker_def)

lemma ignored_name_no_suffix: "name_of p \<in> set IGNORE_DIRS \<Longrightarrow> suffix_of p = []"
  by (auto simp: IGNORE_DIRS_def suffix_of_def Let_def)

lemma ignored_name_not_iterated:
  assumes "name_of p \<in> set IGNORE_DIRS"
  shows "p \<notin> set (iter_repo_files fs)"
proof -
  from assms ignore_names_plain have "name_of p \<noteq> []" by blast
  then have "p \<noteq> []" by (auto simp: name_of_def)
  then have "last p \<in> set p" by simp
  with assms \<open>p \<noteq> []\<close> have "ignored fs p"
    by (auto simp: ignored_def list_ex_iff name_of_def)
  then show ?thesis by (simp add: iter_repo_files_def)
qed

lemma signals_ignored_name_not_iterated:
  assumes "name_of p \<in> set signals_IGNORE_DIRS"
  shows "p \<notin> set (iter_files fs)"
proof -
  from assms have "name_of p \<noteq> []" by (auto simp: signals_IGNORE_DIRS_def)
  then have "p \<noteq> []" by (auto simp: name_of_def)
  then have "last p \<in> set p" by simp
  with assms \<open>p \<noteq> []\<close> have "intersects (root_parts fs @ p) signals_IGNORE_DIRS"
    by (auto simp: intersects_def list_ex_iff name_of_def)
  then show ?thesis by (simp add: iter_files_def)
qed

lemma tree_loop_lines:
  "set (tree_loop m ps lines cnt) \<subseteq> set lines \<union> as_posix ` set ps \<union> {tree_marker}"
proof (induction ps arbitrary: lines cnt)
  case Nil
  show ?case by auto
next
  case (Cons p ps)
  have "set (tree_loop m ps (lines @ [as_posix p]) (cnt + 1))
          \<subseteq> set (lines @ [as_posix p]) \<union> as_posix ` set ps \<union> {tree_marker}"
    by (rule Cons.IH)
  then show ?case by (auto simp: Let_def)
qed

lemma tree_lines_subset:
  "set (tree_lines fs m) \<subseteq> as_posix ` set (iter_repo_files fs) \<union> {tree_marker}"
  using tree_loop_lines [of m "sorted_repo_files fs" "[]" 0]
  by (simp add: tree_lines_def sorted_repo_files_def)

lemma is_file_listed:
  assumes "is_file fs p"
  shows "p \<in> fst ` set (entries fs)"
proof -
  from assms obtain n where "map_of (entries fs) p = Some n"
    by (auto simp: is_file_def node_at_def split: option.splits)
  then have "(p, n) \<in> set (entries fs)" by (rule map_of_SomeD)
  then show ?thesis by force
qed

lemma wf_listed: "wf_snapshot fs \<Longrightarrow> q \<in> fst ` set (entries fs) \<Longrightarrow> wf_rel q"
  by (auto simp: wf_snapshot_def list_all_iff)

lemma posix_not_among:
  assumes "wf_snapshot fs" and "wf_rel p" and "p \<notin> set xs"
    and "set xs \<subseteq> fst ` set (entries fs)"
  shows "as_posix p \<notin> as_posix ` set xs"
proof
  assume "as_posix p \<in> as_posix ` set xs"
  then obtain q where q: "q \<in> set xs" "as_posix p = as_posix q" by auto
  with assms(1,4) have "wf_rel q" using wf_listed by blast
  with q(2) assms(2) have "p = q" using as_posix_inj by blast
  with q(1) assms(3) show False by simp
qed

lemma map_of_filter_other:
  "q \<noteq> p \<Longrightarrow> map_of (filter (\<lambda>e. fst e \<noteq> p) xs) q = map_of xs q"
  by (induction xs) auto

lemma is_file_without: "q \<noteq> p \<Longrightarrow> is_file (without_entry fs p) q = is_file fs q"
  by (simp add: is_file_def node_at_def without_entry_def map_of_filter_other)

lemma iter_files_without:
  "iter_files (without_entry fs p) = filter (\<lambda>q. q \<noteq> p) (iter_files fs)"
proof -
  have k: "map fst (entries (without_entry fs p)) = filter (\<lambda>q. q \<noteq> p) (map fst (entries fs))"
    by (simp add: without_entry_def filter_map comp_def)
  have r: "root_parts (without_entry fs p) = root_parts fs" by (simp add: without_entry_def)
  have "filter (\<lambda>q. is_file (without_entry fs p) q
                    \<and> \<not> intersects (root_parts fs @ q) signals_IGNORE_DIRS)
          (filter (\<lambda>q. q \<noteq> p) (map fst (entries fs)))
      = filter (\<lambda>q. q \<noteq> p \<and> is_file (without_entry fs p) q
                    \<and> \<not> intersects (root_parts fs @ q) signals_IGNORE_DIRS)
          (map fst (entries fs))"
    by simp
  also have "\<dots> = filter (\<lambda>q. (is_file fs q
                    \<and> \<not> intersects (root_parts fs @ q) signals_IGNORE_DIRS) \<and> q \<noteq> p)
          (map fst (entries fs))"
    by (rule filter_cong) (auto simp: is_file_without)
  also have "\<dots> = filter (\<lambda>q. q \<noteq> p) (filter (\<lambda>q. is_file fs q
                    \<and> \<not> intersects (root_parts fs @ q) signals_IGNORE_DIRS)
          (map fst (entries fs)))"
    by simp
  finally show ?thesis unfolding iter_files_def k r .
qed

lemma foldl_skip:
  "(\<And>a. f a p = a) \<Longrightarrow> foldl f a (filter (\<lambda>q. q \<noteq> p) xs) = foldl f a xs"
  by (induction xs arbitrary: a) auto

lemma language_counts_without:
  "name_of p \<in> set IGNORE_DIRS \<Longrightarrow> language_counts (without_entry fs p) = language_counts fs"
  unfolding language_counts_def iter_files_without
  by (rule foldl_skip) (simp add: ignored_name_no_suffix lower_def EXT_LANG_def)

lemma dedupe_subset: "set (dedupe seen xs) \<subseteq> set xs"
  by (induction xs arbitrary: seen) auto

lemma keyed_snd: "keyed key xs = Inr kxs \<Longrightarrow> map snd kxs = xs"
  by (induction xs arbitrary: kxs) (auto split: sum.splits)

lemma scan_candidates_subset:
  assumes "scan_candidates fs n = Inr cands"
  shows "set cands \<subseteq> set (iter_repo_files fs)"
proof -
  from assms obtain kps where
    k: "keyed (size_key fs)
          (filter (\<lambda>p. lower (suffix_of p) \<in> set code_suffixes) (iter_repo_files fs)) = Inr kps"
    and c: "cands = py_take n (map snd (sorted_desc (\<lambda>kp. int (fst kp)) kps))"
    by (auto simp: scan_candidates_def split: sum.splits)
  from keyed_snd [OF k] have "snd ` set kps \<subseteq> set (iter_repo_files fs)"
    by (metis filter_is_subset set_map)
  moreover obtain j where "cands = take j (map snd (sorted_desc (\<lambda>kp. int (fst kp)) kps))"
    using py_take_is_take c by blast
  then have "set cands \<subseteq> snd ` set kps"
    using set_take_subset [of j "map snd (sorted_desc (\<lambda>kp. int (fst kp)) kps)"]
    by (simp add: sorted_desc_def)
  ultimately show ?thesis by blast
qed

lemma foldl_preserves_on:
  "P a \<Longrightarrow> (\<And>b x. x \<in> set xs \<Longrightarrow> P b \<Longrightarrow> P (f b x)) \<Longrightarrow> P (foldl f a xs)"
  by (induction xs arbitrary: a) auto

lemma targets_add_targets:
  "set refs \<subseteq> as_posix ` set (iter_repo_files fs) \<Longrightarrow>
     set (add_targets (build_basename_index fs) refs base) \<subseteq> as_posix ` set (iter_repo_files fs)"
  unfolding add_targets_def index_get_build
  by (rule foldl_preserves_on [where P = "\<lambda>r. set r \<subseteq> as_posix ` set (iter_repo_files fs)"])
     (auto simp: set_add_def)

lemma targets_py_refs:
  "set (py_refs (build_basename_index fs) body) \<subseteq> as_posix ` set (iter_repo_files fs)"
  unfolding py_refs_def
  by (rule foldl_preserves [where P = "\<lambda>r. set r \<subseteq> as_posix ` set (iter_repo_files fs)"])
     (simp_all add: Let_def targets_add_targets)

lemma targets_js_refs:
  "set (js_refs rt (build_basename_index fs) body) \<subseteq> as_posix ` set (iter_repo_files fs)"
  unfolding js_refs_def Let_def
  by (rule foldl_preserves [where P = "\<lambda>r. set r \<subseteq> as_posix ` set (iter_repo_files fs)"],
      rule foldl_preserves [where P = "\<lambda>r. set r \<subseteq> as_posix ` set (iter_repo_files fs)"])
     (simp_all add: targets_add_targets)

lemma targets_go_refs:
  "set (go_refs rt (build_basename_index fs) body) \<subseteq> as_posix ` set (iter_repo_files fs)"
  unfolding go_refs_def
  by (rule foldl_preserves [where P = "\<lambda>r. set r \<subseteq> as_posix ` set (iter_repo_files fs)"])
     (simp_all add: Let_def targets_add_targets)

lemma targets_source_refs:
  "set (source_refs rt (build_basename_index fs) src body) \<subseteq> as_posix ` set (iter_repo_files fs)"
  using targets_py_refs [of fs body] targets_js_refs [of rt fs body] targets_go_refs [of rt fs body]
  by (auto simp: source_refs_def Let_def split: if_splits)

lemma targets_refs_of:
  "set (refs_of rt fs (build_basename_index fs) src) \<subseteq> as_posix ` set (iter_repo_files fs)"
  by (simp add: refs_of_def Let_def targets_source_refs)

lemma counter_add_keys: "fst ` set (counter_add c k n) = insert k (fst ` set c)"
  by (induction c k n rule: counter_add.induct) auto

lemma inbound_loop_keys:
  "fst ` set (foldl (\<lambda>inbound tgt_rel.
                 if tgt_rel \<noteq> src_rel then counter_add inbound tgt_rel 1 else inbound)
               inb xs)
     \<subseteq> fst ` set inb \<union> set xs"
proof (induction xs arbitrary: inb)
  case Nil
  show ?case by simp
next
  case (Cons x xs)
  from Cons.IH [of "if x \<noteq> src_rel then counter_add inb x 1 else inb"]
  show ?case by (auto simp: counter_add_keys split: if_splits)
qed

lemma scan_source_keys_in:
  "fst ` set (fst (scan_source rt fs idx io src))
     \<subseteq> fst ` set (fst io) \<union> set (refs_of rt fs idx src)"
proof (cases "safe_read_text fs src 80000 = []")
  case True
  then show ?thesis by (simp add: scan_source_def)
next
  case False
  let ?refs = "source_refs rt idx src (safe_read_text fs src 80000)"
  have r: "refs_of rt fs idx src = ?refs" using False by (simp add: refs_of_def)
  show ?thesis
  proof (cases "?refs = []")
    case True
    with False show ?thesis by (simp add: scan_source_def Let_def)
  next
    case nonempty: False
    with False have "fst (scan_source rt fs idx io src)
        = foldl (\<lambda>inbound tgt_rel.
                   if tgt_rel \<noteq> as_posix src then counter_add inbound tgt_rel 1 else inbound)
            (fst io) (set_iter rt ?refs)"
      by (simp add: scan_source_def Let_def)
    then show ?thesis
      using inbound_loop_keys [of "as_posix src" "fst io" "set_iter rt ?refs"] r
      by (simp add: set_iter_perm)
  qed
qed

lemma scan_source_keys_out:
  "fst ` set (snd (scan_source rt fs idx io src)) \<subseteq> insert (as_posix src) (fst ` set (snd io))"
  by (auto simp: scan_source_def Let_def counter_add_keys)

lemma scan_all_keys_in:
  "fst ` set (fst (foldl (scan_source rt fs idx) io cs))
     \<subseteq> fst ` set (fst io) \<union> (\<Union>s \<in> set cs. set (refs_of rt fs idx s))"
proof (induction cs arbitrary: io)
  case Nil
  show ?case by simp
next
  case (Cons c cs)
  from Cons.IH [of "scan_source rt fs idx io c"] scan_source_keys_in [of rt fs idx io c]
  show ?case by auto
qed

lemma scan_all_keys_out:
  "fst ` set (snd (foldl (scan_source rt fs idx) io cs))
     \<subseteq> fst ` set (snd io) \<union> as_posix ` set cs"
proof (induction cs arbitrary: io)
  case Nil
  show ?case by simp
next
  case (Cons c cs)
  from Cons.IH [of "scan_source rt fs idx io c"] scan_source_keys_out [of rt fs idx io c]
  show ?case by auto
qed

lemma collect_keys:
  assumes "collect_import_centrality rt fs n = Inr (inbound, outbound)"
  shows "fst ` set inbound \<subseteq> as_posix ` set (iter_repo_files fs)
       \<and> fst ` set outbound \<subseteq> as_posix ` set (iter_repo_files fs)"
proof -
  from assms obtain cands where c: "scan_candidates fs n = Inr cands"
    and r: "foldl (scan_source rt fs (build_basename_index fs)) ([], []) cands = (inbound, outbound)"
    by (auto simp: collect_import_centrality_def split: sum.splits)
  from scan_all_keys_in [of rt fs "build_basename_index fs" "([], [])" cands] r
  have "fst ` set inbound \<subseteq> (\<Union>s \<in> set cands. set (refs_of rt fs (build_basename_index fs) s))"
    by simp
  then have i: "fst ` set inbound \<subseteq> as_posix ` set (iter_repo_files fs)"
    using targets_refs_of [of rt fs] by blast
  from scan_all_keys_out [of rt fs "build_basename_index fs" "([], [])" cands] r
  have "fst ` set outbound \<subseteq> as_posix ` set cands" by simp
  then have "fst ` set outbound \<subseteq> as_posix ` set (iter_repo_files fs)"
    using scan_candidates_subset [OF c] by blast
  with i show ?thesis by blast
qed

lemma add_loop_subset: "set (add_loop fs out seen items) \<subseteq> set out \<union> set items"
proof (induction items arbitrary: out seen)
  case Nil
  show ?case by simp
next
  case (Cons it items)
  from Cons.IH [of "out @ [it]" "resolve_or_self fs it # seen"] Cons.IH [of out seen]
  show ?case by (auto simp: Let_def)
qed

lemma add_unique_subset:
  "add_unique fs out items = Inr r \<Longrightarrow> set r \<subseteq> set out \<union> set items"
  using add_loop_subset by (fastforce simp: add_unique_def split: option.splits)

lemma merge_tiers_subset:
  assumes "merge_tiers fs pinned entry central candidates = Inr picked"
  shows "set picked \<subseteq> set pinned \<union> set entry \<union> set central \<union> set candidates"
proof -
  from assms obtain p1 p2 p3 where
    1: "add_unique fs [] pinned = Inr p1" and
    2: "add_unique fs p1 entry = Inr p2" and
    3: "add_unique fs p2 central = Inr p3" and
    4: "add_unique fs p3 candidates = Inr picked"
    by (auto simp: merge_tiers_def and_then_def split: sum.splits)
  from add_unique_subset [OF 1] add_unique_subset [OF 2] add_unique_subset [OF 3]
    add_unique_subset [OF 4]
  show ?thesis by auto
qed

lemma pinned_tier_subset:
  "set (pinned_tier fs)
     \<subseteq> set (iter_repo_files fs) \<union> {[''README.md''], [''README.rst''], [''README.txt'']}"
  by (auto simp: pinned_tier_def near_root_priority_def readme_step_def Let_def split: if_splits)

lemma entry_tier_subset: "set (entry_tier fs) \<subseteq> set (iter_repo_files fs)"
  by (auto simp: entry_tier_def)

lemma heuristic_tier_subset: "snd ` set (heuristic_tier fs outbound) \<subseteq> set (iter_repo_files fs)"
  by (auto simp: heuristic_tier_set heuristic_candidates_def split: option.splits if_splits)

lemma central_tier_subset:
  assumes "wf_snapshot fs" and "fst ` set inbound \<subseteq> as_posix ` set (iter_repo_files fs)"
  shows "snd ` set (central_tier fs inbound) \<subseteq> set (iter_repo_files fs)"
proof
  fix x
  assume "x \<in> snd ` set (central_tier fs inbound)"
  then obtain rel score where m: "(rel, score) \<in> set (most_common 80 inbound)"
    and x: "x = parse_posix rel"
    by (auto simp: central_tier_def)
  from m have "(rel, score) \<in> set inbound"
    by (auto simp: most_common_def most_common_all_def sorted_desc_def dest: in_set_takeD)
  then have "rel \<in> fst ` set inbound" by force
  with assms(2) obtain q where q: "q \<in> set (iter_repo_files fs)" "rel = as_posix q" by blast
  from wf_iter_repo_files [OF assms(1) q(1)] have "parse_posix (as_posix q) = q"
    by (simp add: parse_as_posix)
  with x q show "x \<in> set (iter_repo_files fs)" by simp
qed

lemma selection_subset:
  assumes "wf_snapshot fs" and "pick_important_files rt fs max_files = Inr sel"
  shows "set sel \<subseteq> set (iter_repo_files fs) \<union> {[''README.md''], [''README.rst''], [''README.txt'']}"
proof -
  from pick_is_cut [OF assms(2)] obtain inbound outbound picked where
    c: "collect_import_centrality rt fs 250 = Inr (inbound, outbound)"
    and m: "merge_tiers fs (pinned_tier fs) (entry_tier fs)
           (map snd (central_tier fs inbound)) (map snd (heuristic_tier fs outbound)) = Inr picked"
    and s: "sel = py_take max_files picked" by blast
  obtain j where "sel = take j picked" using py_take_is_take s by blast
  then have "set sel \<subseteq> set picked" by (simp add: set_take_subset)
  moreover from merge_tiers_subset [OF m]
  have "set picked \<subseteq> set (pinned_tier fs) \<union> set (entry_tier fs)
          \<union> snd ` set (central_tier fs inbound) \<union> snd ` set (heuristic_tier fs outbound)"
    by simp
  moreover from collect_keys [OF c]
  have "snd ` set (central_tier fs inbound) \<subseteq> set (iter_repo_files fs)"
    using central_tier_subset [OF assms(1)] by blast
  ultimately show ?thesis
    using pinned_tier_subset [of fs] entry_tier_subset [of fs] heuristic_tier_subset [of fs outbound]
    by blast
qed

text \<open>
  Claim C10. Let a regular file of a well-formed tree have a name of the ignore set of
  \<open>utils.py\<close>. Then \<open>iter_repo_files\<close> does not yield it, its path is no line of the tree
  listing, the language counts are those of the tree without it, its path is in no
  entrypoint list and not among the manifest paths, no basename is indexed to it, it is
  no scan candidate and no key of the inbound or outbound counter, and it is in no
  selection. When the name is also in the smaller ignore set of \<open>signals.py\<close>, the scanner
  \<open>_iter_files\<close> does not yield the file either.
\<close>

theorem file_named_like_an_ignored_directory:
  assumes "wf_snapshot fs" and "is_file fs p" and "name_of p \<in> set IGNORE_DIRS"
  shows "p \<notin> set (iter_repo_files fs)
       \<and> as_posix p \<notin> set (tree_lines fs max_entries)
       \<and> (name_of p \<in> set signals_IGNORE_DIRS \<longrightarrow> p \<notin> set (iter_files fs))
       \<and> language_counts (without_entry fs p) = language_counts fs
       \<and> as_posix p \<notin> set (entrypoints_near_root_of fs)
       \<and> as_posix p \<notin> set (entrypoints_anywhere_of fs)
       \<and> as_posix p \<notin> set (manifest_paths_of fs)
       \<and> (\<forall>base. p \<notin> set (index_get (build_basename_index fs) base))
       \<and> (\<forall>cands. scan_candidates fs n = Inr cands \<longrightarrow> p \<notin> set cands)
       \<and> (\<forall>inbound outbound. collect_import_centrality rt fs n = Inr (inbound, outbound) \<longrightarrow>
              as_posix p \<notin> fst ` set inbound \<and> as_posix p \<notin> fst ` set outbound)
       \<and> (\<forall>sel. pick_important_files rt fs max_files = Inr sel \<longrightarrow> p \<notin> set sel)"
proof -
  have wfp: "wf_rel p" using assms(1) is_file_listed [OF assms(2)] by (rule wf_listed)
  have it: "p \<notin> set (iter_repo_files fs)" using assms(3) by (rule ignored_name_not_iterated)
  have sub: "set (iter_repo_files fs) \<subseteq> fst ` set (entries fs)" by (rule iter_repo_files_subset)
  have px: "as_posix p \<notin> as_posix ` set (iter_repo_files fs)"
    using assms(1) wfp it sub by (rule posix_not_among)
  have names: "name_of p \<notin> set ENTRYPOINT_FILES_NEAR_ROOT
      \<and> name_of p \<notin> set ENTRYPOINT_FILES_ANYWHERE \<and> name_of p \<notin> set manifest_names
      \<and> name_of p \<noteq> tree_marker \<and> name_of p \<noteq> ''README.md'' \<and> name_of p \<noteq> ''README.rst''
      \<and> name_of p \<noteq> ''README.txt''"
    using ignore_names_plain [OF assms(3)] by blast
  have mk: "as_posix p \<noteq> tree_marker"
  proof
    assume "as_posix p = tree_marker"
    then have "as_posix p = as_posix [tree_marker]" by (simp add: as_posix_def)
    moreover have "wf_rel [tree_marker]" by (simp add: wf_rel_def wf_part_def tree_marker_def)
    ultimately have "p = [tree_marker]" using wfp as_posix_inj by blast
    with names show False by (simp add: name_of_def)
  qed
  have tl: "as_posix p \<notin> set (tree_lines fs max_entries)"
    using tree_lines_subset [of fs max_entries] px mk by blast
  have lc: "language_counts (without_entry fs p) = language_counts fs"
    using assms(3) by (rule language_counts_without)
  have e1: "as_posix p \<notin> set (entrypoints_near_root_of fs)"
  proof -
    let ?xs = "filter (\<lambda>q. count_char (as_posix q) CHR ''/'' \<le> 1
                        \<and> name_of q \<in> set ENTRYPOINT_FILES_NEAR_ROOT) (iter_files fs)"
    have "p \<notin> set ?xs" using names by simp
    moreover have "set ?xs \<subseteq> fst ` set (entries fs)" using iter_files_subset [of fs] by auto
    ultimately have "as_posix p \<notin> as_posix ` set ?xs"
      using assms(1) wfp posix_not_among by blast
    then show ?thesis
      using dedupe_subset [of "[]" "map as_posix ?xs"] by (auto simp: entrypoints_near_root_of_def)
  qed
  have e2: "as_posix p \<notin> set (entrypoints_anywhere_of fs)"
  proof -
    let ?xs = "filter (\<lambda>q. name_of q \<in> set ENTRYPOINT_FILES_ANYWHERE) (iter_files fs)"
    have "p \<notin> set ?xs" using names by simp
    moreover have "set ?xs \<subseteq> fst ` set (entries fs)" using iter_files_subset [of fs] by auto
    ultimately have "as_posix p \<notin> as_posix ` set ?xs"
      using assms(1) wfp posix_not_among by blast
    then show ?thesis
      using dedupe_subset [of "[]" "map as_posix ?xs"] by (auto simp: entrypoints_anywhere_of_def)
  qed
  have e3: "as_posix p \<notin> set (manifest_paths_of fs)"
  proof -
    let ?xs = "filter (\<lambda>q. name_of q \<in> set manifest_names) (iter_files fs)"
    have "p \<notin> set ?xs" using names by simp
    moreover have "set ?xs \<subseteq> fst ` set (entries fs)" using iter_files_subset [of fs] by auto
    ultimately have "as_posix p \<notin> as_posix ` set ?xs"
      using assms(1) wfp posix_not_among by blast
    then show ?thesis by (simp add: manifest_paths_of_def)
  qed
  have ix: "\<forall>base. p \<notin> set (index_get (build_basename_index fs) base)"
    using it by (simp add: index_get_build)
  have cs: "\<forall>cands. scan_candidates fs n = Inr cands \<longrightarrow> p \<notin> set cands"
    using it scan_candidates_subset by blast
  have io: "\<forall>inbound outbound. collect_import_centrality rt fs n = Inr (inbound, outbound) \<longrightarrow>
              as_posix p \<notin> fst ` set inbound \<and> as_posix p \<notin> fst ` set outbound"
    using px collect_keys by blast
  have sl: "\<forall>sel. pick_important_files rt fs max_files = Inr sel \<longrightarrow> p \<notin> set sel"
  proof (intro allI impI)
    fix sel
    assume "pick_important_files rt fs max_files = Inr sel"
    from selection_subset [OF assms(1) this] it names show "p \<notin> set sel"
      by (auto simp: name_of_def)
  qed
  have sg: "name_of p \<in> set signals_IGNORE_DIRS \<longrightarrow> p \<notin> set (iter_files fs)"
    using signals_ignored_name_not_iterated by blast
  from it tl sg lc e1 e2 e3 ix cs io sl show ?thesis by blast
qed

lemma vt_node:
  "node_at vendor_tree p =
     map_of [regular demo_root [''README.md''] 5 ''hello'',
             regular demo_root [''main.py''] 13 ''import vendor'',
             regular demo_root [''vendor''] 3 ''x=1''] p"
  by (simp add: node_at_def vendor_tree_def)

lemma vt_wf: "wf_snapshot vendor_tree"
  by (simp add: wf_snapshot_def wf_rel_def wf_part_def vendor_tree_def regular_def)

lemma vt_iter: "iter_repo_files vendor_tree = [[''README.md''], [''main.py'']]"
  by (simp add: iter_repo_files_def vendor_tree_def demo_root_def regular_def
        ignored_def IGNORE_DIRS_def is_file_def node_at_def)

lemma vt_iter_files: "iter_files vendor_tree = [[''README.md''], [''main.py''], [''vendor'']]"
  by (simp add: iter_files_def vendor_tree_def demo_root_def regular_def
        intersects_def signals_IGNORE_DIRS_def is_file_def node_at_def)

lemma vt_pinned: "pinned_tier vendor_tree = [[''README.md'']]"
  unfolding pinned_tier_def near_root_priority_def vt_iter
  by (simp add: readme_step_def count_char_def as_posix_def name_of_def PRIORITY_FILES_def
        path_exists_def vt_node regular_def)

lemma vt_entry: "entry_tier vendor_tree = [[''main.py'']]"
  unfolding entry_tier_def vt_iter
  by (simp add: name_of_def ENTRY_FILENAMES_def lower_names)

lemma vt_index: "build_basename_index vendor_tree =
    [(''readme'', [[''README.md'']]), (''main'', [[''main.py'']])]"
  unfolding build_basename_index_def vt_iter
  by (simp add: stem_of_def name_of_def lower_names)

lemma vt_candidates: "scan_candidates vendor_tree 250 = Inr [[''main.py'']]"
  unfolding scan_candidates_def vt_iter
  by (simp add: suffix_of_def name_of_def lower_names code_suffixes_def size_key_def
        path_exists_def stat_size_def vt_node regular_def sorted_desc_def py_take_def)

lemma vt_imports: "PY_IMPORT_finditer ''import vendor'' = [''vendor'']"
  by (simp add: PY_IMPORT_finditer_def py_import_match_def is_space_def is_modchar_def Let_def
        nl_def)

lemma vt_lower: "lower ''vendor'' = ''vendor''"
  by code_simp

lemma vt_scan:
  "scan_source rt vendor_tree [(''readme'', [[''README.md'']]), (''main'', [[''main.py'']])]
      ([], []) [''main.py''] = ([], [])"
  by (simp add: scan_source_def safe_read_text_def read_text_def vt_node regular_def
        source_refs_def suffix_of_def name_of_def lower_names py_refs_def vt_imports vt_lower
        strip_def is_space_def add_targets_def index_get_def Let_def)

lemma vt_collect: "collect_import_centrality rt vendor_tree 250 = Inr ([], [])"
  unfolding collect_import_centrality_def vt_candidates vt_index
  by (simp add: vt_scan)

lemma vt_heuristic:
  "heuristic_tier vendor_tree [] = [(120, [''README.md'']), (90, [''main.py''])]"
  unfolding heuristic_tier_def heuristic_candidates_def vt_iter
  by (simp add: heuristic_score_def Let_def as_posix_def name_of_def lower_names
        PRIORITY_FILES_def CODE_DIR_HINTS_def DEPRIORITIZE_DIRS_def ENTRY_FILENAMES_def
        intersects_def endswith_def stat_size_def vt_node regular_def
        count_of_def sorted_desc_def)

lemma vt_merge:
  "merge_tiers vendor_tree [[''README.md'']] [[''main.py'']] [] [[''README.md''], [''main.py'']]
     = Inr [[''README.md''], [''main.py'']]"
  by (simp add: merge_tiers_def and_then_def add_unique_def resolve_def resolve_or_self_def
        vt_node regular_def Let_def)

lemma vt_pick:
  "pick_important_files rt vendor_tree 40 = Inr [[''README.md''], [''main.py'']]"
  unfolding pick_important_files_def vt_collect
  by (simp add: vt_pinned vt_entry vt_heuristic vt_merge central_tier_def most_common_def
        most_common_all_def sorted_desc_def py_take_def)

theorem file_named_like_an_ignored_directory_witness:
  "wf_snapshot vendor_tree
   \<and> is_file vendor_tree [''vendor'']
   \<and> name_of [''vendor''] \<in> set IGNORE_DIRS
   \<and> [''vendor''] \<in> set (iter_files vendor_tree)
   \<and> [''vendor''] \<notin> set (iter_repo_files vendor_tree)
   \<and> as_posix [''vendor''] \<notin> set (tree_lines vendor_tree 600)
   \<and> language_counts (without_entry vendor_tree [''vendor'']) = language_counts vendor_tree
   \<and> as_posix [''vendor''] \<notin> set (entrypoints_near_root_of vendor_tree)
   \<and> [''vendor''] \<notin> set (index_get (build_basename_index vendor_tree) ''vendor'')
   \<and> pick_important_files plain_runtime vendor_tree 40 = Inr [[''README.md''], [''main.py'']]
   \<and> [''vendor''] \<notin> set [[''README.md''], [''main.py'']]"
proof -
  have f: "is_file vendor_tree [''vendor'']"
    by (simp add: is_file_def vt_node regular_def)
  have n: "name_of [''vendor''] \<in> set IGNORE_DIRS"
    by (simp add: name_of_def IGNORE_DIRS_def)
  have i: "[''vendor''] \<in> set (iter_files vendor_tree)" by (simp add: vt_iter_files)
  from file_named_like_an_ignored_directory [OF vt_wf f n, of 600 250 plain_runtime 40]
    vt_pick [of plain_runtime]
  have "[''vendor''] \<notin> set (iter_repo_files vendor_tree)
   \<and> as_posix [''vendor''] \<notin> set (tree_lines vendor_tree 600)
   \<and> language_counts (without_entry vendor_tree [''vendor'']) = language_counts vendor_tree
   \<and> as_posix [''vendor''] \<notin> set (entrypoints_near_root_of vendor_tree)
   \<and> [''vendor''] \<notin> set (index_get (build_basename_index vendor_tree) ''vendor'')
   \<and> [''vendor''] \<notin> set [[''README.md''], [''main.py'']]"
    by blast
  with vt_wf f n i vt_pick [of plain_runtime] show ?thesis by blast
qed

end
